theory Spec2Isabelle
  imports Complex_Main "HOL-Library.Product_Lexorder" "HOL-Library.Multiset" "HOL-Library.Log_Nat"
begin

section \<open>Numbers\<close>

text \<open>
  The calculation engines compute with Python \<^verbatim>\<open>Decimal\<close> and \<^verbatim>\<open>float\<close> values; both are
  rational numbers here, and Python integers are \<open>int\<close>.

  A \<^verbatim>\<open>Decimal\<close> is the rational it denotes and Decimal arithmetic is exact: the 28-digit
  precision of the Decimal context is not part of the model.

  A \<^verbatim>\<open>float\<close> is a binary64 number. \<open>fl x\<close> is the double nearest to the rational \<open>x\<close>, a
  tie going to the even significand; a float addition, subtraction, multiplication or
  division is the exact operation followed by \<open>fl\<close>, and \<^verbatim>\<open>float(d)\<close> of a Decimal and a float
  literal are \<open>fl\<close> of the decimal. Comparison, \<^verbatim>\<open>abs\<close>, \<^verbatim>\<open>min\<close>, \<^verbatim>\<open>max\<close> and negation are exact.
  The exponent is unbounded: overflow and subnormal numbers, far from every value computed
  here, are not part of the model.

  \<^verbatim>\<open>round(x, n)\<close> of a float rounds the exact value of \<open>x\<close> to the nearest multiple of
  \<open>10\<^sup>-\<^sup>n\<close>, a tie going to the even neighbour, and returns the double nearest to that
  decimal. The model holds such a result as the decimal itself, \<open>py_round x n\<close>, and
  applies \<open>fl\<close> where arithmetic goes on with it. The values the backend engine takes and
  returns (current and target values with one decimal, weights, the rounded metrics) are held
  this way; the root engine's floats are held as the doubles they are.

  Three functions of the backend engine are modelled on the decimal numbers throughout:
  \<^verbatim>\<open>calculate_context_score\<close> and \<^verbatim>\<open>calculate_dynamic_weights\<close>, whose operations before the
  final \<^verbatim>\<open>round\<close> are taken exact, and \<^verbatim>\<open>calculate_priority_level\<close>, which compares its
  arguments with the decimal thresholds.
\<close>

definition round_half_even :: "rat \<Rightarrow> int" where
  "round_half_even x =
     (let f = \<lfloor>x\<rfloor>; d = x - of_int f
      in if d < 1 / 2 then f
         else if 1 / 2 < d then f + 1
         else if even f then f else f + 1)"

definition py_round :: "rat \<Rightarrow> nat \<Rightarrow> rat" where
  "py_round x n = of_int (round_half_even (x * 10 ^ n)) / 10 ^ n"

text \<open>
  The exponent \<open>e\<close> of a positive rational, \<open>2\<^sup>e \<le> x < 2\<^sup>e\<^sup>+\<^sup>1\<close>, from the bit lengths of
  numerator and denominator; the doubles of that binade are the multiples of \<open>2\<^sup>e\<^sup>-\<^sup>5\<^sup>2\<close>.
\<close>

definition float_exponent :: "rat \<Rightarrow> int" where
  "float_exponent x =
     (let (p, q) = quotient_of x;
          e = bitlen p - bitlen q
      in if 2 powi e \<le> x then e else e - 1)"

definition fl :: "rat \<Rightarrow> rat" where
  "fl x =
     (if x = 0 then 0
      else
        let ulp = 2 powi (float_exponent \<bar>x\<bar> - 52)
        in of_int (round_half_even (x / ulp)) * ulp)"

text \<open>
  \<^verbatim>\<open>sum(xs)\<close> over floats starts from the integer 0 and adds the items from left to
  right, each addition rounded. (From version 3.12 on CPython compensates the rounding
  errors of such a sum; the model is the plain summation of the versions before.)
\<close>

definition fsum :: "rat list \<Rightarrow> rat" where
  "fsum xs = foldl (\<lambda>a x. fl (a + x)) 0 xs"

text \<open>
  \<^verbatim>\<open>w.quantize(Decimal('0.001'), rounding=ROUND_HALF_UP)\<close>: the nearest multiple of
  \<open>0.001\<close>, a tie going away from zero.
\<close>

definition round_half_up :: "rat \<Rightarrow> int" where
  "round_half_up x = (if 0 \<le> x then \<lfloor>x + 1 / 2\<rfloor> else - \<lfloor>- x + 1 / 2\<rfloor>)"

definition quantize3 :: "rat \<Rightarrow> rat" where
  "quantize3 w = of_int (round_half_up (w * 1000)) / 1000"

section \<open>Data\<close>

text \<open>
  A dimension score carries the fields both engines read. The root engine's class
  computes \<^verbatim>\<open>self.gap = abs(ist_value - soll_value)\<close> in its constructor; \<open>gap\<close> below is
  that attribute.
\<close>

record DimensionScore =
  dimension_id :: string
  ist_value :: rat
  soll_value :: rat
  dynamic_weight :: rat

definition gap :: "DimensionScore \<Rightarrow> rat" where
  "gap score = \<bar>ist_value score - soll_value score\<bar>"

record ContextFactor =
  factor_name :: string
  factor_value :: int

datatype error = KeyError | ZeroDivisionError | ValueError string | DivisionByZero | InvalidOperation

datatype PriorityLevel = LOW | MEDIUM | HIGH | CRITICAL

text \<open>
  \<^verbatim>\<open>{score.dimension_id: score for score in dimension_scores}\<close>: a later score replaces an
  earlier one with the same id.
\<close>

definition scores_dict :: "DimensionScore list \<Rightarrow> string \<rightharpoonup> DimensionScore" where
  "scores_dict dimension_scores = map_of (rev (map (\<lambda>score. (dimension_id score, score)) dimension_scores))"

section \<open>The backend engine (backend/app/core/calculations.py)\<close>

subsection \<open>AIHECalculationEngine\<close>

definition TENSION_PAIRS :: "(string \<times> string) list" where
  "TENSION_PAIRS =
     [(''D6'', ''D3''), (''D1'', ''D6''), (''D2'', ''D4''), (''D5'', ''D7''),
      (''D1'', ''D8''), (''D3'', ''D4''), (''D2'', ''D1''), (''D6'', ''D5''),
      (''D7'', ''D8''), (''D3'', ''D1''), (''D4'', ''D6''), (''D2'', ''D7'')]"

definition calculate_eqi_backend :: "DimensionScore list \<Rightarrow> rat" where
  "calculate_eqi_backend dimension_scores =
     (if dimension_scores = [] \<or> length dimension_scores \<noteq> 8 then 0
      else
        let total_gap = fsum (map (\<lambda>score. \<bar>fl (fl (ist_value score) - fl (soll_value score))\<bar>) dimension_scores);
            max_possible_gap = 8 * 3;
            eqi = fl (1 - min 1 (fl (total_gap / max_possible_gap)))
        in py_round eqi 3)"

definition calculate_rgi_backend :: "DimensionScore list \<Rightarrow> rat" where
  "calculate_rgi_backend dimension_scores =
     (if dimension_scores = [] \<or> length dimension_scores \<noteq> 8 then 0
      else
        let weighted_sum = fsum (map (\<lambda>score. fl (fl (ist_value score) * fl (dynamic_weight score))) dimension_scores);
            rgi = fl (weighted_sum / 4)
        in py_round rgi 3)"

text \<open>
  One pass of the loop over the tension pairs: when both ids are present the weighted
  tension of the pair is added to the running total.
\<close>

definition add_pair_tension_backend ::
    "(string \<rightharpoonup> DimensionScore) \<Rightarrow> rat \<Rightarrow> rat \<Rightarrow> string \<times> string \<Rightarrow> rat" where
  "add_pair_tension_backend scores pair_weight total_tension pair =
     (case (scores (fst pair), scores (snd pair)) of
        (Some score_a, Some score_b) \<Rightarrow>
          let gap_a = fl (fl (ist_value score_a) - fl (soll_value score_a));
              gap_b = fl (fl (ist_value score_b) - fl (soll_value score_b));
              tension = \<bar>fl (gap_a - gap_b)\<bar>
          in fl (total_tension + fl (tension * pair_weight))
      | _ \<Rightarrow> total_tension)"

definition calculate_si_backend :: "DimensionScore list \<Rightarrow> rat" where
  "calculate_si_backend dimension_scores =
     (if dimension_scores = [] \<or> length dimension_scores \<noteq> 8 then 0
      else
        let pair_weight = fl (1 / of_nat (length TENSION_PAIRS));
            total_tension = foldl (add_pair_tension_backend (scores_dict dimension_scores) pair_weight) 0 TENSION_PAIRS;
            si = fl (total_tension / 6)
        in py_round (min si 1) 3)"

definition calculate_sbs_backend :: "rat \<Rightarrow> rat \<Rightarrow> rat \<Rightarrow> rat" where
  "calculate_sbs_backend eqi si rgi =
     py_round (fl (fl (fl (fl eqi + fl (1 - fl si)) + fl rgi) / 3)) 3"

text \<open>
  The eight expected factor names. The source's strings hold the letters o-umlaut,
  a-umlaut, u-umlaut and sharp s; here they are their UTF-8 bytes.
\<close>

definition Organisationsgroesse :: string where
  "Organisationsgroesse = ''Organisationsgr'' @ [CHR 0xC3, CHR 0xB6, CHR 0xC3, CHR 0x9F] @ ''e''"

definition Technologische_Komplexitaet :: string where
  "Technologische_Komplexitaet = ''Technologische Komplexit'' @ [CHR 0xC3, CHR 0xA4] @ ''t''"

definition Ressourcenverfuegbarkeit :: string where
  "Ressourcenverfuegbarkeit = ''Ressourcenverf'' @ [CHR 0xC3, CHR 0xBC] @ ''gbarkeit''"

definition expected_factors :: "string list" where
  "expected_factors =
     [Organisationsgroesse, ''Branchendynamik'', ''Regulatorischer Druck'',
      Technologische_Komplexitaet, ''Change-Historie'', ''Marktdynamik'',
      ''Wettbewerbsdruck'', Ressourcenverfuegbarkeit]"

text \<open>
  \<^verbatim>\<open>factor_values[factor.factor_name] = factor.factor_value\<close> for each factor in turn: the
  last value given for a name stays.
\<close>

definition factor_values :: "ContextFactor list \<Rightarrow> string \<rightharpoonup> int" where
  "factor_values context_factors = map_of (rev (map (\<lambda>factor. (factor_name factor, factor_value factor)) context_factors))"

definition effective_value :: "(string \<rightharpoonup> int) \<Rightarrow> string \<Rightarrow> int" where
  "effective_value values name =
     (let v = (case values name of Some v \<Rightarrow> v | None \<Rightarrow> 1)
      in if name = Ressourcenverfuegbarkeit then 3 - v else v)"

definition calculate_context_score_backend :: "ContextFactor list \<Rightarrow> rat" where
  "calculate_context_score_backend context_factors =
     (if context_factors = [] then 1 / 2
      else
        let total_score = (\<Sum>name\<leftarrow>expected_factors. effective_value (factor_values context_factors) name);
            context_score = of_int total_score / 24
        in py_round context_score 3)"

record Metrics =
  eqi :: rat
  rgi :: rat
  si :: rat
  sbs :: rat
  context_score :: rat

definition calculate_all_metrics :: "DimensionScore list \<Rightarrow> ContextFactor list \<Rightarrow> Metrics" where
  "calculate_all_metrics dimension_scores context_factors =
     (let e = calculate_eqi_backend dimension_scores;
          r = calculate_rgi_backend dimension_scores;
          s = calculate_si_backend dimension_scores
      in \<lparr>eqi = e, rgi = r, si = s, sbs = calculate_sbs_backend e s r,
          context_score = calculate_context_score_backend context_factors\<rparr>)"

subsection \<open>DynamicWeightingEngine\<close>

type_synonym weights = "(string \<times> rat) list"

text \<open>A weight dictionary is the list of its items in insertion order.\<close>

definition CHAOTIC_DOER_WEIGHTS :: weights where
  "CHAOTIC_DOER_WEIGHTS =
     [(''D1'', 20 / 100), (''D2'', 18 / 100), (''D3'', 10 / 100), (''D4'', 12 / 100),
      (''D5'', 12 / 100), (''D6'', 8 / 100), (''D7'', 10 / 100), (''D8'', 10 / 100)]"

definition CAUTIOUS_CORPORATE_WEIGHTS :: weights where
  "CAUTIOUS_CORPORATE_WEIGHTS =
     [(''D1'', 15 / 100), (''D2'', 15 / 100), (''D3'', 15 / 100), (''D4'', 15 / 100),
      (''D5'', 10 / 100), (''D6'', 12 / 100), (''D7'', 8 / 100), (''D8'', 10 / 100)]"

definition STAGNANT_ESTABLISHED_WEIGHTS :: weights where
  "STAGNANT_ESTABLISHED_WEIGHTS =
     [(''D1'', 12 / 100), (''D2'', 18 / 100), (''D3'', 18 / 100), (''D4'', 15 / 100),
      (''D5'', 10 / 100), (''D6'', 15 / 100), (''D7'', 7 / 100), (''D8'', 5 / 100)]"

definition BALANCED_TRANSFORMER_WEIGHTS :: weights where
  "BALANCED_TRANSFORMER_WEIGHTS =
     [(''D1'', 125 / 1000), (''D2'', 125 / 1000), (''D3'', 125 / 1000), (''D4'', 125 / 1000),
      (''D5'', 125 / 1000), (''D6'', 125 / 1000), (''D7'', 125 / 1000), (''D8'', 125 / 1000)]"

definition ARCHETYPE_WEIGHTS :: "(string \<times> weights) list" where
  "ARCHETYPE_WEIGHTS =
     [(''CHAOTIC_DOER'', CHAOTIC_DOER_WEIGHTS),
      (''CAUTIOUS_CORPORATE'', CAUTIOUS_CORPORATE_WEIGHTS),
      (''STAGNANT_ESTABLISHED'', STAGNANT_ESTABLISHED_WEIGHTS),
      (''BALANCED_TRANSFORMER'', BALANCED_TRANSFORMER_WEIGHTS)]"

text \<open>
  \<^verbatim>\<open>ARCHETYPE_WEIGHTS.get(archetype, ARCHETYPE_WEIGHTS["BALANCED_TRANSFORMER"])\<close>.
\<close>

definition base_weights_of :: "string \<Rightarrow> weights" where
  "base_weights_of archetype =
     (case map_of ARCHETYPE_WEIGHTS archetype of
        Some w \<Rightarrow> w
      | None \<Rightarrow> BALANCED_TRANSFORMER_WEIGHTS)"

text \<open>
  The float division \<^verbatim>\<open>weight / total_weight\<close> raises \<^verbatim>\<open>ZeroDivisionError\<close> when the
  total is zero. The optional third argument is accepted and never read.
\<close>

definition calculate_dynamic_weights_backend ::
    "string \<Rightarrow> rat \<Rightarrow> DimensionScore list option \<Rightarrow> error + weights" where
  "calculate_dynamic_weights_backend archetype cscore dimension_scores =
     (let base_weights = base_weights_of archetype;
          context_factor = 1 + (cscore - 1 / 2) * (2 / 10);
          adjusted_weights = map (\<lambda>(dim_id, weight). (dim_id, weight * context_factor)) base_weights;
          total_weight = sum_list (map snd adjusted_weights)
      in if total_weight = 0 then Inl ZeroDivisionError
         else Inr (map (\<lambda>(dim_id, weight). (dim_id, py_round (weight / total_weight) 3)) adjusted_weights))"

subsection \<open>GapAnalysisEngine\<close>

definition calculate_subdimension_gap_backend :: "rat \<Rightarrow> rat \<Rightarrow> rat \<times> rat" where
  "calculate_subdimension_gap_backend ist soll =
     (let g = \<bar>fl (fl soll - fl ist)\<bar>;
          gap_percentage = fl (fl (g / 4) * 100)
      in (py_round g 1, py_round gap_percentage 2))"

definition calculate_priority_level_backend :: "rat \<Rightarrow> rat \<Rightarrow> PriorityLevel" where
  "calculate_priority_level_backend ist g =
     (if ist < 2 \<and> g > 15 / 10 then CRITICAL
      else if ist < 25 / 10 \<and> g > 1 then HIGH
      else if g > 15 / 10 then HIGH
      else if g > 8 / 10 then MEDIUM
      else LOW)"

section \<open>The root engine (calculations.py)\<close>

subsection \<open>AIHECalculationEngine\<close>

definition SCHWELLENWERT_GAP :: rat where "SCHWELLENWERT_GAP = 15 / 10"
definition SCHWELLENWERT_SPANNUNG :: rat where "SCHWELLENWERT_SPANNUNG = 30 / 10"
definition SCHWELLENWERT_NIEDRIG :: rat where "SCHWELLENWERT_NIEDRIG = 2 / 10"
definition SCHWELLENWERT_HOCH :: rat where "SCHWELLENWERT_HOCH = 8 / 10"
definition SCHWELLENWERT_IST :: rat where "SCHWELLENWERT_IST = 35 / 10"
definition ANPASSUNGSFAKTOR :: rat where "ANPASSUNGSFAKTOR = 12 / 10"
definition ANPASSUNGSFAKTOR_HOCH :: rat where "ANPASSUNGSFAKTOR_HOCH = 13 / 10"
definition ANPASSUNGSFAKTOR_MITTEL :: rat where "ANPASSUNGSFAKTOR_MITTEL = 11 / 10"
definition ANPASSUNGSFAKTOR_DAEMPFUNG :: rat where "ANPASSUNGSFAKTOR_DAEMPFUNG = 8 / 10"
definition MINIMUM_GEWICHT :: rat where "MINIMUM_GEWICHT = 1 / 100"

definition SPANNUNGSPAARE :: "(string \<times> string) list" where
  "SPANNUNGSPAARE =
     [(''D1'', ''D2''), (''D1'', ''D3''), (''D1'', ''D4''), (''D1'', ''D5''),
      (''D2'', ''D3''), (''D2'', ''D6''), (''D3'', ''D4''), (''D3'', ''D6''),
      (''D4'', ''D5''), (''D5'', ''D6''), (''D6'', ''D7''), (''D7'', ''D8'')]"


definition calculate_rgi_root :: "DimensionScore list \<Rightarrow> rat" where
  "calculate_rgi_root dimension_scores =
     (let weighted_sum = fsum (map (\<lambda>score. fl (ist_value score * dynamic_weight score)) dimension_scores);
          r = fl (weighted_sum / 4)
      in max 0 (min 1 r))"



definition calculate_sbs_root :: "rat \<Rightarrow> rat \<Rightarrow> rat \<Rightarrow> rat" where
  "calculate_sbs_root e s r = max 0 (min 1 (fl (fl (fl (e + fl (1 - s)) + r) / 3)))"

definition context_weights_root :: "rat list" where
  "context_weights_root =
     [12 / 100, 11 / 100, 10 / 100, 9 / 100, 11 / 100, 10 / 100, 12 / 100, 8 / 100, 9 / 100, 8 / 100]"

definition calculate_context_score_root :: "ContextFactor list \<Rightarrow> rat" where
  "calculate_context_score_root context_factors =
     (if context_factors = [] \<or> length context_factors \<noteq> 10 then 5 / 10
      else
        let weighted_sum = fsum (map (\<lambda>(factor, weight). fl (of_int (factor_value factor) * fl weight))
                                  (zip context_factors context_weights_root));
            c = fl (weighted_sum / 3)
        in max 0 (min 1 c))"

subsection \<open>DynamicWeightingEngine\<close>

datatype Archetyp = CHAOTIC_DOER | CAUTIOUS_CORPORATE | STAGNANT_ESTABLISHED | BALANCED_TRANSFORMER

definition dimension_ids :: "string list" where
  "dimension_ids = [''D1'', ''D2'', ''D3'', ''D4'', ''D5'', ''D6'', ''D7'', ''D8'']"

definition load_base_weights :: "bool \<Rightarrow> weights" where
  "load_base_weights is_kmu =
     (if is_kmu then
        [(''D1'', 10 / 100), (''D2'', 15 / 100), (''D3'', 15 / 100), (''D4'', 15 / 100),
         (''D5'', 10 / 100), (''D6'', 10 / 100), (''D7'', 15 / 100), (''D8'', 10 / 100)]
      else map (\<lambda>d. (d, 125 / 1000)) dimension_ids)"

text \<open>
  \<^verbatim>\<open>weights[key] *= factor\<close>: the entry is multiplied in place; a key the dictionary does
  not hold raises \<^verbatim>\<open>KeyError\<close>.
\<close>

definition mul_weight :: "weights \<Rightarrow> string \<Rightarrow> rat \<Rightarrow> error + weights" where
  "mul_weight ws key factor =
     (if key \<in> set (map fst ws)
      then Inr (map (\<lambda>(k, w). if k = key then (k, w * factor) else (k, w)) ws)
      else Inl KeyError)"

text \<open>
  Rules 1, 2 and 5 are the same loop,
  \<^verbatim>\<open>for score in dimension_scores: if condition(score): weights[score.dimension_id] *= factor\<close>,
  with three conditions and factors. An exception leaves the loop at once.
\<close>

fun multiply_where :: "(DimensionScore \<Rightarrow> bool) \<Rightarrow> rat \<Rightarrow> weights \<Rightarrow> DimensionScore list \<Rightarrow> error + weights" where
  "multiply_where condition factor ws [] = Inr ws"
| "multiply_where condition factor ws (score # rest) =
     (if condition score then
        (case mul_weight ws (dimension_id score) factor of
           Inl e \<Rightarrow> Inl e
         | Inr ws' \<Rightarrow> multiply_where condition factor ws' rest)
      else multiply_where condition factor ws rest)"

definition apply_rule_1_tight_gaps :: "weights \<Rightarrow> DimensionScore list \<Rightarrow> error + weights" where
  "apply_rule_1_tight_gaps ws dimension_scores =
     multiply_where (\<lambda>score. gap score \<le> SCHWELLENWERT_GAP) ANPASSUNGSFAKTOR ws dimension_scores"

definition apply_rule_2_large_gaps :: "weights \<Rightarrow> DimensionScore list \<Rightarrow> error + weights" where
  "apply_rule_2_large_gaps ws dimension_scores =
     multiply_where (\<lambda>score. gap score > SCHWELLENWERT_GAP) ANPASSUNGSFAKTOR ws dimension_scores"

definition apply_rule_3_high_tension :: "weights \<Rightarrow> DimensionScore list \<Rightarrow> error + weights" where
  "apply_rule_3_high_tension ws dimension_scores =
     (case (scores_dict dimension_scores ''D6'', scores_dict dimension_scores ''D3'') of
        (Some d6, Some d3) \<Rightarrow>
          let gap_d6 = ist_value d6 - soll_value d6;
              gap_d3 = ist_value d3 - soll_value d3;
              spannung_tech_kultur = gap_d6 - gap_d3;
              intensitaet = \<bar>spannung_tech_kultur\<bar>
          in if intensitaet > SCHWELLENWERT_SPANNUNG then
               (if gap_d3 < gap_d6 then
                  (case mul_weight ws ''D3'' ANPASSUNGSFAKTOR_HOCH of
                     Inl e \<Rightarrow> Inl e
                   | Inr ws' \<Rightarrow> mul_weight ws' ''D6'' ANPASSUNGSFAKTOR_MITTEL)
                else
                  (case mul_weight ws ''D6'' ANPASSUNGSFAKTOR_HOCH of
                     Inl e \<Rightarrow> Inl e
                   | Inr ws' \<Rightarrow> mul_weight ws' ''D3'' ANPASSUNGSFAKTOR_MITTEL))
             else Inr ws
      | _ \<Rightarrow> Inr ws)"

definition apply_rule_4_context :: "weights \<Rightarrow> rat \<Rightarrow> error + weights" where
  "apply_rule_4_context ws cscore =
     (if cscore < fl SCHWELLENWERT_NIEDRIG then mul_weight ws ''D7'' ANPASSUNGSFAKTOR
      else if cscore > fl SCHWELLENWERT_HOCH then
        (case mul_weight ws ''D1'' ANPASSUNGSFAKTOR of
           Inl e \<Rightarrow> Inl e
         | Inr ws' \<Rightarrow> mul_weight ws' ''D2'' ANPASSUNGSFAKTOR)
      else Inr ws)"

text \<open>The source's body is the single statement \<^verbatim>\<open>return False\<close>.\<close>

definition is_in_critical_tension :: "string \<Rightarrow> DimensionScore list \<Rightarrow> bool" where
  "is_in_critical_tension dim_id dimension_scores = False"

definition apply_rule_5_above_average :: "weights \<Rightarrow> DimensionScore list \<Rightarrow> error + weights" where
  "apply_rule_5_above_average ws dimension_scores =
     multiply_where
       (\<lambda>score. ist_value score > SCHWELLENWERT_IST \<and> ist_value score \<ge> soll_value score
          \<and> \<not> is_in_critical_tension (dimension_id score) dimension_scores)
       ANPASSUNGSFAKTOR_DAEMPFUNG ws dimension_scores"

fun get_archetyp_factors :: "Archetyp \<Rightarrow> weights" where
  "get_archetyp_factors CHAOTIC_DOER =
     [(''D1'', 15 / 10), (''D2'', 14 / 10), (''D3'', 9 / 10), (''D4'', 11 / 10),
      (''D5'', 11 / 10), (''D6'', 7 / 10), (''D7'', 13 / 10), (''D8'', 12 / 10)]"
| "get_archetyp_factors CAUTIOUS_CORPORATE =
     [(''D1'', 8 / 10), (''D2'', 10 / 10), (''D3'', 15 / 10), (''D4'', 14 / 10),
      (''D5'', 10 / 10), (''D6'', 13 / 10), (''D7'', 10 / 10), (''D8'', 11 / 10)]"
| "get_archetyp_factors STAGNANT_ESTABLISHED =
     [(''D1'', 12 / 10), (''D2'', 14 / 10), (''D3'', 13 / 10), (''D4'', 12 / 10),
      (''D5'', 10 / 10), (''D6'', 12 / 10), (''D7'', 10 / 10), (''D8'', 13 / 10)]"
| "get_archetyp_factors BALANCED_TRANSFORMER = map (\<lambda>d. (d, 10 / 10)) dimension_ids"

definition apply_rule_6_archetyp :: "weights \<Rightarrow> Archetyp \<Rightarrow> weights" where
  "apply_rule_6_archetyp ws archetyp =
     (let faktoren = map_of (get_archetyp_factors archetyp)
      in map (\<lambda>(k, w). case faktoren k of Some f \<Rightarrow> (k, w * f) | None \<Rightarrow> (k, w)) ws)"

definition apply_minimum_security :: "weights \<Rightarrow> weights" where
  "apply_minimum_security ws = map (\<lambda>(k, w). if w < MINIMUM_GEWICHT then (k, MINIMUM_GEWICHT) else (k, w)) ws"

text \<open>
  \<^verbatim>\<open>max(rounded_weights, key=rounded_weights.get)\<close>: the first key, in insertion order,
  whose value no other value exceeds; \<^verbatim>\<open>ValueError\<close> on an empty dictionary.
\<close>

fun max_key_from :: "string \<times> rat \<Rightarrow> weights \<Rightarrow> string" where
  "max_key_from best [] = fst best"
| "max_key_from best (item # rest) =
     (if snd item > snd best then max_key_from item rest else max_key_from best rest)"

definition max_key :: "weights \<Rightarrow> error + string" where
  "max_key ws = (case ws of [] \<Rightarrow> Inl (ValueError ''max() arg is an empty sequence'') | item # rest \<Rightarrow> Inr (max_key_from item rest))"

text \<open>
  The rounded weights are floats, \<^verbatim>\<open>float(weight.quantize(...))\<close>, and their sum, the
  difference to \<open>1.0\<close> and the correction are float operations. The warning printed when
  the difference exceeds \<open>0.001\<close> is an output on the console and leaves the returned
  value alone; it is not part of the model.
\<close>

definition round_and_correct :: "weights \<Rightarrow> error + weights" where
  "round_and_correct ws =
     (let rounded_weights = map (\<lambda>(k, w). (k, fl (quantize3 w))) ws;
          summe = fsum (map snd rounded_weights);
          differenz = fl (1 - summe)
      in if \<bar>differenz\<bar> > fl (1 / 10000) then
           (case max_key rounded_weights of
              Inl e \<Rightarrow> Inl e
            | Inr groesste_dimension \<Rightarrow>
                Inr (map (\<lambda>(k, w). if k = groesste_dimension then (k, fl (w + differenz)) else (k, w))
                       rounded_weights))
         else Inr rounded_weights)"

text \<open>
  The Decimal division \<^verbatim>\<open>weights[dimension_id] / summe\<close> signals \<^verbatim>\<open>DivisionByZero\<close> for a
  zero sum, and \<^verbatim>\<open>InvalidOperation\<close> when the weight is zero too; the first key decides.
\<close>

definition normalize_weights :: "weights \<Rightarrow> error + weights" where
  "normalize_weights ws =
     (let summe = sum_list (map snd ws)
      in if ws \<noteq> [] \<and> summe = 0 then
           (if snd (hd ws) = 0 then Inl InvalidOperation else Inl DivisionByZero)
         else round_and_correct (map (\<lambda>(k, w). (k, w / summe)) ws))"

definition calculate_dynamic_weights_root ::
    "DimensionScore list \<Rightarrow> rat \<Rightarrow> Archetyp \<Rightarrow> bool \<Rightarrow> error + weights" where
  "calculate_dynamic_weights_root dimension_scores cscore archetyp is_kmu =
     (case apply_rule_1_tight_gaps (load_base_weights is_kmu) dimension_scores of
        Inl e \<Rightarrow> Inl e
      | Inr w1 \<Rightarrow>
     (case apply_rule_2_large_gaps w1 dimension_scores of
        Inl e \<Rightarrow> Inl e
      | Inr w2 \<Rightarrow>
     (case apply_rule_3_high_tension w2 dimension_scores of
        Inl e \<Rightarrow> Inl e
      | Inr w3 \<Rightarrow>
     (case apply_rule_4_context w3 cscore of
        Inl e \<Rightarrow> Inl e
      | Inr w4 \<Rightarrow>
     (case apply_rule_5_above_average w4 dimension_scores of
        Inl e \<Rightarrow> Inl e
      | Inr w5 \<Rightarrow>
          normalize_weights (apply_minimum_security (apply_rule_6_archetyp w5 archetyp)))))))"

subsection \<open>GapAnalysisEngine\<close>

text \<open>
  The two functions below take doubles. Their literals \<^verbatim>\<open>2.0\<close>, \<^verbatim>\<open>1.5\<close>, \<^verbatim>\<open>2.5\<close>, \<^verbatim>\<open>1.0\<close>, \<^verbatim>\<open>4.0\<close>
  and \<^verbatim>\<open>0.5\<close> are doubles themselves; \<^verbatim>\<open>0.8\<close> is the double nearest to eight tenths.
\<close>

definition calculate_subdimension_gap_root :: "rat \<Rightarrow> rat \<Rightarrow> rat \<times> rat" where
  "calculate_subdimension_gap_root ist soll =
     (let g = \<bar>fl (ist - soll)\<bar>;
          gap_percent = fl (fl (g / 4) * 100)
      in (g, gap_percent))"

definition calculate_priority_level_root :: "rat \<Rightarrow> rat \<Rightarrow> PriorityLevel" where
  "calculate_priority_level_root ist g =
     (if ist < 2 \<and> g > 15 / 10 then CRITICAL
      else if ist < 25 / 10 \<and> g > 1 then HIGH
      else if g > fl (8 / 10) then HIGH
      else if g > 5 / 10 then MEDIUM
      else LOW)"

text \<open>
  A recommendation is the dictionary the source appends; the current and the target value
  enter as \<^verbatim>\<open>float(score.ist_value)\<close> and \<^verbatim>\<open>float(score.soll_value)\<close>. Its description is
  \<^verbatim>\<open>"Dimension <id> ben\<close>o-umlaut\<^verbatim>\<open>tigt Aufmerksamkeit"\<close>, the umlaut as its UTF-8 bytes.
\<close>

record Recommendation =
  rec_dimension_id :: string
  rec_priority :: PriorityLevel
  rec_gap :: rat
  rec_gap_percent :: rat
  rec_description :: string
  rec_ist_value :: rat
  rec_soll_value :: rat

definition recommendation_of :: "DimensionScore \<Rightarrow> Recommendation" where
  "recommendation_of score =
     (let (g, gap_percent) = calculate_subdimension_gap_root (fl (ist_value score)) (fl (soll_value score));
          priority = calculate_priority_level_root (fl (ist_value score)) g
      in \<lparr>rec_dimension_id = dimension_id score,
          rec_priority = priority,
          rec_gap = g,
          rec_gap_percent = gap_percent,
          rec_description = ''Dimension '' @ dimension_id score @ '' ben'' @ [CHR 0xC3, CHR 0xB6] @ ''tigt Aufmerksamkeit'',
          rec_ist_value = fl (ist_value score),
          rec_soll_value = fl (soll_value score)\<rparr>)"

fun priority_order :: "PriorityLevel \<Rightarrow> nat" where
  "priority_order CRITICAL = 0"
| "priority_order HIGH = 1"
| "priority_order MEDIUM = 2"
| "priority_order LOW = 3"

definition recommendation_key :: "Recommendation \<Rightarrow> nat \<times> rat" where
  "recommendation_key x = (priority_order (rec_priority x), - rec_gap x)"

text \<open>
  \<^verbatim>\<open>list.sort(key=...)\<close> is a stable sort on the key tuples, compared lexicographically;
  \<open>sort_key\<close> is the stable insertion sort of the list library, and pairs carry the
  lexicographic order.
\<close>

definition generate_recommendations :: "DimensionScore list \<Rightarrow> Recommendation list" where
  "generate_recommendations dimension_scores =
     (let recommendations =
            filter (\<lambda>x. rec_priority x \<in> {CRITICAL, HIGH}) (map recommendation_of dimension_scores)
      in sort_key recommendation_key recommendations)"

section \<open>Completing an assessment (backend/app/schemas/assessment.py, crud_assessment.py)\<close>

text \<open>
  The fields of a subdimension score that the completion reads. The schema admits current
  and target values between 1.0 and 4.0 and rounds them to one decimal,
  \<^verbatim>\<open>round(v * 10) / 10\<close>; a value is held as that decimal.
\<close>

record SubdimensionScoreCreate =
  subdimension_id :: string
  sub_ist_value :: rat
  sub_soll_value :: rat

record AssessmentCompletion =
  subdimension_scores :: "SubdimensionScoreCreate list"
  context_factors :: "ContextFactor list"

definition expected_subdimensions :: "string list" where
  "expected_subdimensions =
     [''D1.1'', ''D1.2'', ''D2.1'', ''D2.2'', ''D3.1'', ''D3.2'', ''D4.1'', ''D4.2'',
      ''D5.1'', ''D5.2'', ''D6.1'', ''D6.2'', ''D7.1'', ''D7.2'', ''D8.1'', ''D8.2'']"

text \<open>
  The validator of \<^verbatim>\<open>AssessmentCompletion.subdimension_scores\<close>. The second message of the
  source ends with the printed set of missing ids; the model keeps the fixed part.
\<close>

definition validate_all_subdimensions :: "SubdimensionScoreCreate list \<Rightarrow> error + SubdimensionScoreCreate list" where
  "validate_all_subdimensions v =
     (if length v \<noteq> 16 then Inl (ValueError ''Must provide exactly 16 subdimension scores'')
      else
        let provided_subdimensions = map subdimension_id v;
            missing = set expected_subdimensions - set provided_subdimensions
        in if missing \<noteq> {} then Inl (ValueError ''Missing subdimension scores'')
           else Inr v)"

text \<open>
  \<^verbatim>\<open>AssessmentCompletion(subdimension_scores=v, context_factors=cfs)\<close>: the constructor of
  the schema runs the validator, and the object exists only when the validator returns.
  The \<^verbatim>\<open>ValueError\<close> of the validator leaves the constructor as the schema library's
  validation error, itself a \<^verbatim>\<open>ValueError\<close>; the route answers it to the caller as an invalid
  request.
\<close>

definition new_AssessmentCompletion ::
    "SubdimensionScoreCreate list \<Rightarrow> ContextFactor list \<Rightarrow> error + AssessmentCompletion" where
  "new_AssessmentCompletion v cfs =
     (case validate_all_subdimensions v of
        Inl e \<Rightarrow> Inl e
      | Inr v' \<Rightarrow> Inr \<lparr>subdimension_scores = v', context_factors = cfs\<rparr>)"

datatype AssessmentStatus = DRAFT | IN_PROGRESS | COMPLETED | ARCHIVED

text \<open>
  The columns of an assessment that \<^verbatim>\<open>complete_assessment\<close> writes. The time stamp
  \<^verbatim>\<open>completed_at\<close> is left out.
\<close>

record Assessment =
  overall_rgi :: "rat option"
  overall_eqi :: "rat option"
  overall_si :: "rat option"
  overall_sbs :: "rat option"
  assessment_context_score :: "rat option"
  status :: AssessmentStatus
  completion_percentage :: nat

record SubdimensionScoreRow =
  row_subdimension_id :: string
  row_ist_value :: rat
  row_soll_value :: rat
  row_gap :: rat
  row_gap_percentage :: rat
  row_priority_level :: PriorityLevel

text \<open>
  What the call leaves behind: the updated assessment and the rows it added. A dimension
  row also stores \<^verbatim>\<open>round(abs(avg_soll - avg_ist), 1)\<close> as its gap column, which no metric
  reads; the model's dimension rows are the \<open>DimensionScore\<close> records the metrics see.
\<close>

record Completion =
  completed_assessment :: Assessment
  subdimension_rows :: "SubdimensionScoreRow list"
  dimension_rows :: "DimensionScore list"

definition subdimension_row :: "SubdimensionScoreCreate \<Rightarrow> SubdimensionScoreRow" where
  "subdimension_row score_data =
     (let (g, gap_percentage) = calculate_subdimension_gap_backend (sub_ist_value score_data) (sub_soll_value score_data);
          priority_level = calculate_priority_level_backend (sub_ist_value score_data) g
      in \<lparr>row_subdimension_id = subdimension_id score_data,
          row_ist_value = sub_ist_value score_data,
          row_soll_value = sub_soll_value score_data,
          row_gap = g,
          row_gap_percentage = gap_percentage,
          row_priority_level = priority_level\<rparr>)"

text \<open>\<^verbatim>\<open>s.startswith(p)\<close>\<close>

definition startswith :: "string \<Rightarrow> string \<Rightarrow> bool" where
  "startswith s p = (take (length p) s = p)"

definition dim_subdimensions :: "SubdimensionScoreRow list \<Rightarrow> string \<Rightarrow> SubdimensionScoreRow list" where
  "dim_subdimensions rows dim_id = filter (\<lambda>score. startswith (row_subdimension_id score) (dim_id @ ''.'')) rows"

text \<open>
  One pass of the loop over \<^verbatim>\<open>['D1', ..., 'D8']\<close>: a dimension row is built when the
  dimension has exactly two subdimension rows, and nothing happens otherwise.
\<close>

definition aggregate_dimension :: "weights \<Rightarrow> SubdimensionScoreRow list \<Rightarrow> string \<Rightarrow> DimensionScore option" where
  "aggregate_dimension dynamic_weights rows dim_id =
     (let subs = dim_subdimensions rows dim_id
      in if length subs = 2 then
           let avg_ist = fl (fsum (map (\<lambda>score. fl (row_ist_value score)) subs) / 2);
               avg_soll = fl (fsum (map (\<lambda>score. fl (row_soll_value score)) subs) / 2)
           in Some \<lparr>dimension_id = dim_id,
                    ist_value = py_round avg_ist 1,
                    soll_value = py_round avg_soll 1,
                    dynamic_weight = (case map_of dynamic_weights dim_id of Some w \<Rightarrow> w | None \<Rightarrow> 125 / 1000)\<rparr>
         else None)"

text \<open>
  \<^verbatim>\<open>CRUDAssessment.complete_assessment\<close>. The base class's \<^verbatim>\<open>get\<close> is not among the
  sources; its result, the stored assessment or nothing, is the first argument.
\<close>

definition complete_assessment :: "Assessment option \<Rightarrow> AssessmentCompletion \<Rightarrow> string \<Rightarrow> error + Completion" where
  "complete_assessment found completion_data organisation_archetype =
     (case found of
        None \<Rightarrow> Inl (ValueError ''Assessment not found'')
      | Some assessment \<Rightarrow>
          let cscore = calculate_context_score_backend (context_factors completion_data)
          in (case calculate_dynamic_weights_backend organisation_archetype cscore None of
               Inl e \<Rightarrow> Inl e
             | Inr dynamic_weights \<Rightarrow>
                 let rows = map subdimension_row (subdimension_scores completion_data);
                     dimension_scores = List.map_filter (aggregate_dimension dynamic_weights rows) dimension_ids;
                     metrics = calculate_all_metrics dimension_scores (context_factors completion_data)
                 in Inr \<lparr>completed_assessment =
                           assessment\<lparr>overall_rgi := Some (rgi metrics),
                                      overall_eqi := Some (eqi metrics),
                                      overall_si := Some (si metrics),
                                      overall_sbs := Some (sbs metrics),
                                      assessment_context_score := Some (context_score metrics),
                                      status := COMPLETED,
                                      completion_percentage := 100\<rparr>,
                         subdimension_rows = rows,
                         dimension_rows = dimension_scores\<rparr>))"

section \<open>The specification's statements and the examples\<close>

text \<open>
  The priority cascade as the specification words it: an ordered list of rules, each a
  condition and a level; the first rule whose condition holds decides, and the level is
  LOW when none does.
\<close>

fun first_match :: "(bool \<times> PriorityLevel) list \<Rightarrow> PriorityLevel \<Rightarrow> PriorityLevel" where
  "first_match [] otherwise = otherwise"
| "first_match ((condition, level) # rules) otherwise =
     (if condition then level else first_match rules otherwise)"

definition canonical_cascade :: "rat \<Rightarrow> rat \<Rightarrow> PriorityLevel" where
  "canonical_cascade ist g =
     first_match
       [(ist < 2 \<and> g > 15 / 10, CRITICAL),
        (ist < 25 / 10 \<and> g > 1, HIGH),
        (g > 15 / 10, HIGH),
        (g > 8 / 10, MEDIUM)]
       LOW"

text \<open>
  The context score as the specification words it: for each expected name the value
  supplied for it (the one given last, when a name is given twice), 1 when none is; the
  resource-availability value replaced by 3 minus itself; the sum over 24, rounded to
  three decimals; one half for an empty list.
\<close>

definition supplied_value :: "ContextFactor list \<Rightarrow> string \<Rightarrow> int" where
  "supplied_value cfs name =
     (case filter (\<lambda>factor. factor_name factor = name) cfs of
        [] \<Rightarrow> 1
      | found \<Rightarrow> factor_value (last found))"

definition spec_context_score :: "ContextFactor list \<Rightarrow> rat" where
  "spec_context_score cfs =
     (if cfs = [] then 5 / 10
      else py_round
        (of_int (\<Sum>name\<leftarrow>expected_factors.
            if name = Ressourcenverfuegbarkeit then 3 - supplied_value cfs name
            else supplied_value cfs name) / 24) 3)"

definition all_factors_at :: "int \<Rightarrow> ContextFactor list" where
  "all_factors_at v = map (\<lambda>name. \<lparr>factor_name = name, factor_value = v\<rparr>) expected_factors"

definition unit_interval :: "rat \<Rightarrow> bool" where
  "unit_interval x = (0 \<le> x \<and> x \<le> 1)"

text \<open>A score and a context factor as the data model bounds them.\<close>

definition score_in_range :: "DimensionScore \<Rightarrow> bool" where
  "score_in_range s =
     (1 \<le> ist_value s \<and> ist_value s \<le> 4 \<and> 1 \<le> soll_value s \<and> soll_value s \<le> 4
      \<and> 0 \<le> dynamic_weight s \<and> dynamic_weight s \<le> 1)"

definition factor_in_range :: "ContextFactor \<Rightarrow> bool" where
  "factor_in_range f = (0 \<le> factor_value f \<and> factor_value f \<le> 3)"

text \<open>The fixtures of the repository's tests (backend/tests/test_calculations.py).\<close>

definition sample_dimension_scores :: "DimensionScore list" where
  "sample_dimension_scores =
     [\<lparr>dimension_id = ''D1'', ist_value = 25 / 10, soll_value = 30 / 10, dynamic_weight = 20 / 100\<rparr>,
      \<lparr>dimension_id = ''D2'', ist_value = 28 / 10, soll_value = 32 / 10, dynamic_weight = 18 / 100\<rparr>,
      \<lparr>dimension_id = ''D3'', ist_value = 18 / 10, soll_value = 30 / 10, dynamic_weight = 10 / 100\<rparr>,
      \<lparr>dimension_id = ''D4'', ist_value = 15 / 10, soll_value = 35 / 10, dynamic_weight = 12 / 100\<rparr>,
      \<lparr>dimension_id = ''D5'', ist_value = 23 / 10, soll_value = 30 / 10, dynamic_weight = 12 / 100\<rparr>,
      \<lparr>dimension_id = ''D6'', ist_value = 35 / 10, soll_value = 30 / 10, dynamic_weight = 8 / 100\<rparr>,
      \<lparr>dimension_id = ''D7'', ist_value = 27 / 10, soll_value = 30 / 10, dynamic_weight = 10 / 100\<rparr>,
      \<lparr>dimension_id = ''D8'', ist_value = 20 / 10, soll_value = 30 / 10, dynamic_weight = 10 / 100\<rparr>]"

definition sample_context_factors :: "ContextFactor list" where
  "sample_context_factors =
     [\<lparr>factor_name = Organisationsgroesse, factor_value = 2\<rparr>,
      \<lparr>factor_name = ''Branchendynamik'', factor_value = 1\<rparr>,
      \<lparr>factor_name = ''Regulatorischer Druck'', factor_value = 3\<rparr>,
      \<lparr>factor_name = Technologische_Komplexitaet, factor_value = 2\<rparr>,
      \<lparr>factor_name = ''Change-Historie'', factor_value = 1\<rparr>,
      \<lparr>factor_name = ''Marktdynamik'', factor_value = 2\<rparr>,
      \<lparr>factor_name = ''Wettbewerbsdruck'', factor_value = 3\<rparr>,
      \<lparr>factor_name = Ressourcenverfuegbarkeit, factor_value = 2\<rparr>]"

text \<open>
  Eight scores at the top of the scale whose weights, each in \<open>[0, 1]\<close>, sum to \<open>1.001\<close>.
\<close>

definition rgi_overflow_scores :: "DimensionScore list" where
  "rgi_overflow_scores =
     \<lparr>dimension_id = ''D1'', ist_value = 4, soll_value = 4, dynamic_weight = 126 / 1000\<rparr>
     # map (\<lambda>d. \<lparr>dimension_id = d, ist_value = 4, soll_value = 4, dynamic_weight = 125 / 1000\<rparr>)
         [''D2'', ''D3'', ''D4'', ''D5'', ''D6'', ''D7'', ''D8'']"

text \<open>
  The priority the recommendation engine computes for a dimension score: the level its
  priority function gives to the float of the current value and the gap its gap function
  gives to the floats of the current and the target value.
\<close>

definition computed_priority :: "DimensionScore \<Rightarrow> PriorityLevel" where
  "computed_priority score =
     calculate_priority_level_root (fl (ist_value score))
       (fst (calculate_subdimension_gap_root (fl (ist_value score)) (fl (soll_value score))))"

definition urgent :: "DimensionScore \<Rightarrow> bool" where
  "urgent score = (computed_priority score = CRITICAL \<or> computed_priority score = HIGH)"

text \<open>
  The order the specification asks of the list, in its own numbers: the rank of a level is
  0 for CRITICAL, 1 for HIGH, 2 for MEDIUM and 3 for LOW; of two records the earlier one has
  the smaller rank, or the same rank and a gap that is not smaller.
\<close>

fun priority_rank :: "PriorityLevel \<Rightarrow> nat" where
  "priority_rank CRITICAL = 0"
| "priority_rank HIGH = 1"
| "priority_rank MEDIUM = 2"
| "priority_rank LOW = 3"

definition ranked_before :: "Recommendation \<Rightarrow> Recommendation \<Rightarrow> bool" where
  "ranked_before a b =
     (priority_rank (rec_priority a) < priority_rank (rec_priority b)
      \<or> (priority_rank (rec_priority a) = priority_rank (rec_priority b) \<and> rec_gap b \<le> rec_gap a))"

text \<open>
  Two scores on the grid of one decimal. The exact gap of the first is eight tenths; the
  float subtraction gives a double above the double of \<^verbatim>\<open>0.8\<close>.
\<close>

definition grid_score :: DimensionScore where
  "grid_score = \<lparr>dimension_id = ''D1'', ist_value = 14 / 10, soll_value = 22 / 10, dynamic_weight = 125 / 1000\<rparr>"

definition critical_score :: DimensionScore where
  "critical_score = \<lparr>dimension_id = ''D2'', ist_value = 1, soll_value = 3, dynamic_weight = 125 / 1000\<rparr>"

text \<open>
  Notions for the weighting pipeline: a dictionary with every value multiplied by a
  factor that depends on the key; the number of scores of a list that carry a given id and
  satisfy a condition; the conditions of the rules 1 and 5; the factor rule 6 applies.
\<close>

definition scale :: "(string \<Rightarrow> rat) \<Rightarrow> weights \<Rightarrow> weights" where
  "scale g ws = map (\<lambda>(k, w). (k, w * g k)) ws"

definition occurrences :: "(DimensionScore \<Rightarrow> bool) \<Rightarrow> DimensionScore list \<Rightarrow> string \<Rightarrow> nat" where
  "occurrences condition ds k = length (filter (\<lambda>s. condition s \<and> dimension_id s = k) ds)"

definition everyone :: "DimensionScore \<Rightarrow> bool" where
  "everyone s = True"

definition tight :: "DimensionScore \<Rightarrow> bool" where
  "tight s = (gap s \<le> SCHWELLENWERT_GAP)"

definition above_average :: "DimensionScore list \<Rightarrow> DimensionScore \<Rightarrow> bool" where
  "above_average ds s = (ist_value s > SCHWELLENWERT_IST \<and> ist_value s \<ge> soll_value s
      \<and> \<not> is_in_critical_tension (dimension_id s) ds)"

definition archetyp_factor :: "Archetyp \<Rightarrow> string \<Rightarrow> rat" where
  "archetyp_factor a k = (case map_of (get_archetyp_factors a) k of Some f \<Rightarrow> f | None \<Rightarrow> 1)"




text \<open>
  The shape the specification asks of the subdimension scores: sixteen of them, two for
  each of the eight dimensions, counted the way the aggregation groups them (by the prefix
  of the id). Then an assessment still to be completed, the sixteen expected scores, and
  the same list without its last score.
\<close>

definition subdimension_count :: "SubdimensionScoreCreate list \<Rightarrow> string \<Rightarrow> nat" where
  "subdimension_count v d = length (filter (\<lambda>s. startswith (subdimension_id s) (d @ ''.'')) v)"

definition two_per_dimension :: "SubdimensionScoreCreate list \<Rightarrow> bool" where
  "two_per_dimension v = (length v = 16 \<and> list_all (\<lambda>d. subdimension_count v d = 2) dimension_ids)"

definition draft_assessment :: Assessment where
  "draft_assessment =
     \<lparr>overall_rgi = None, overall_eqi = None, overall_si = None, overall_sbs = None,
      assessment_context_score = None, status = DRAFT, completion_percentage = 0\<rparr>"

definition full_scores :: "SubdimensionScoreCreate list" where
  "full_scores = map (\<lambda>i. \<lparr>subdimension_id = i, sub_ist_value = 2, sub_soll_value = 3\<rparr>) expected_subdimensions"

definition incomplete_scores :: "SubdimensionScoreCreate list" where
  "incomplete_scores = take 15 full_scores"

definition incomplete_completion :: "error + Completion" where
  "incomplete_completion =
     complete_assessment (Some draft_assessment)
       \<lparr>subdimension_scores = incomplete_scores, context_factors = sample_context_factors\<rparr>
       ''BALANCED_TRANSFORMER''"

text \<open>
  The tension of a pair of scores as rule 3 computes it for technology and culture: the
  absolute difference of the two signed gaps. Then eight scores in range in which culture
  (D3) is three points behind its target and technology (D6) one point ahead of its own.
\<close>

definition tension_intensity :: "DimensionScore \<Rightarrow> DimensionScore \<Rightarrow> rat" where
  "tension_intensity a b = \<bar>(ist_value a - soll_value a) - (ist_value b - soll_value b)\<bar>"

definition score_D3_behind :: DimensionScore where
  "score_D3_behind = \<lparr>dimension_id = ''D3'', ist_value = 1, soll_value = 4, dynamic_weight = 125 / 1000\<rparr>"

definition score_D6_ahead :: DimensionScore where
  "score_D6_ahead = \<lparr>dimension_id = ''D6'', ist_value = 4, soll_value = 3, dynamic_weight = 125 / 1000\<rparr>"

definition tension_scores :: "DimensionScore list" where
  "tension_scores =
     [\<lparr>dimension_id = ''D1'', ist_value = 25 / 10, soll_value = 3, dynamic_weight = 125 / 1000\<rparr>,
      \<lparr>dimension_id = ''D2'', ist_value = 25 / 10, soll_value = 3, dynamic_weight = 125 / 1000\<rparr>,
      score_D3_behind,
      \<lparr>dimension_id = ''D4'', ist_value = 25 / 10, soll_value = 3, dynamic_weight = 125 / 1000\<rparr>,
      \<lparr>dimension_id = ''D5'', ist_value = 25 / 10, soll_value = 3, dynamic_weight = 125 / 1000\<rparr>,
      score_D6_ahead,
      \<lparr>dimension_id = ''D7'', ist_value = 25 / 10, soll_value = 3, dynamic_weight = 125 / 1000\<rparr>,
      \<lparr>dimension_id = ''D8'', ist_value = 25 / 10, soll_value = 3, dynamic_weight = 125 / 1000\<rparr>]"

section \<open>Rounding\<close>

lemma round_half_even_ge: "of_int k \<le> x \<Longrightarrow> k \<le> round_half_even x"
proof -
  assume "of_int k \<le> x"
  then have "k \<le> \<lfloor>x\<rfloor>" by (simp add: le_floor_iff)
  moreover have "\<lfloor>x\<rfloor> \<le> round_half_even x"
    by (simp add: round_half_even_def Let_def)
  ultimately show ?thesis by linarith
qed

lemma round_half_even_le: "x \<le> of_int k \<Longrightarrow> round_half_even x \<le> k"
proof (cases "x = of_int k")
  case True
  then show ?thesis by (simp add: round_half_even_def)
next
  case False
  assume "x \<le> of_int k"
  with False have "x < of_int k" by simp
  then have "\<lfloor>x\<rfloor> < k" by (simp add: floor_less_iff)
  moreover have "round_half_even x \<le> \<lfloor>x\<rfloor> + 1"
    by (simp add: round_half_even_def Let_def)
  ultimately show ?thesis by linarith
qed

lemma py_round_nonneg: "0 \<le> x \<Longrightarrow> 0 \<le> py_round x n"
  using round_half_even_ge [of 0 "x * 10 ^ n"] by (simp add: py_round_def)

lemma py_round_le_one: "x \<le> 1 \<Longrightarrow> py_round x n \<le> 1"
proof -
  assume "x \<le> 1"
  then have "x * 10 ^ n \<le> of_int (10 ^ n)" by simp
  then have "round_half_even (x * 10 ^ n) \<le> 10 ^ n" by (rule round_half_even_le)
  then have "(of_int (round_half_even (x * 10 ^ n)) :: rat) \<le> of_int (10 ^ n)"
    by (simp only: of_int_le_iff)
  then show ?thesis by (simp add: py_round_def divide_le_eq)
qed

lemma py_round_unit: "0 \<le> x \<Longrightarrow> x \<le> 1 \<Longrightarrow> 0 \<le> py_round x n \<and> py_round x n \<le> 1"
  by (simp add: py_round_nonneg py_round_le_one)

text \<open>
  The double nearest to a rational lies within half a unit in the last place, that is
  within the fraction \<open>2\<^sup>-\<^sup>5\<^sup>3\<close> of the rational itself.
\<close>

lemma round_half_even_error: "\<bar>of_int (round_half_even y) - y\<bar> \<le> 1 / 2"
proof -
  have "of_int \<lfloor>y\<rfloor> \<le> y" and "y < of_int \<lfloor>y\<rfloor> + 1" by linarith+
  then show ?thesis
    by (auto simp: round_half_even_def Let_def)
qed

lemma round_half_even_nonneg: "0 \<le> y \<Longrightarrow> 0 \<le> round_half_even y"
proof -
  assume "0 \<le> y"
  then have "0 \<le> \<lfloor>y\<rfloor>" by simp
  then show ?thesis by (simp add: round_half_even_def Let_def)
qed

lemma float_exponent_le:
  assumes "0 < x"
  shows "2 powi float_exponent x \<le> x"
proof -
  obtain p q where pq: "quotient_of x = (p, q)" by (cases "quotient_of x")
  then have x: "x = of_int p / of_int q" and q: "0 < q"
    by (simp_all add: quotient_of_div quotient_of_denom_pos)
  with assms have p: "0 < p" by (simp add: zero_less_divide_iff)
  define e where "e = bitlen p - bitlen q"
  show ?thesis
  proof (cases "2 powi e \<le> x")
    case True
    then show ?thesis by (simp add: float_exponent_def pq e_def)
  next
    case False
    have bp: "1 \<le> bitlen p" and bq: "1 \<le> bitlen q"
      using p q by (simp_all add: bitlen_alt_def)
    from bitlen_bounds [OF p] have "2 ^ nat (bitlen p - 1) \<le> p" by simp
    then have lo: "(2 :: rat) ^ nat (bitlen p - 1) \<le> of_int p"
      by (metis of_int_le_iff of_int_numeral of_int_power)
    from bitlen_bounds [OF q] have "q < 2 ^ nat (bitlen q)" by simp
    then have hi: "of_int q \<le> (2 :: rat) ^ nat (bitlen q)"
      by (metis less_imp_le of_int_le_iff of_int_numeral of_int_power)
    have "(2 :: rat) powi ((bitlen p - 1) - bitlen q) = 2 powi (bitlen p - 1) / 2 powi (bitlen q)"
      by (rule power_int_diff) simp
    moreover have "e - 1 = (bitlen p - 1) - bitlen q" by (simp add: e_def)
    ultimately have "(2 :: rat) powi (e - 1) = 2 powi (bitlen p - 1) / 2 powi (bitlen q)"
      by (simp only:)
    also have "\<dots> = 2 ^ nat (bitlen p - 1) / 2 ^ nat (bitlen q)"
      using bp bq by (simp add: power_int_def)
    also have "\<dots> \<le> of_int p / of_int q"
      using lo hi p q by (intro frac_le) simp_all
    finally have "2 powi (e - 1) \<le> x" by (simp only: x)
    with False show ?thesis by (simp add: float_exponent_def pq e_def)
  qed
qed

lemma fl_error: "\<bar>fl x - x\<bar> \<le> \<bar>x\<bar> / 2 ^ 53"
proof (cases "x = 0")
  case True
  then show ?thesis by (simp add: fl_def)
next
  case False
  define e where "e = float_exponent \<bar>x\<bar>"
  define ulp :: rat where "ulp = 2 powi (e - 52)"
  have pos: "0 < ulp" by (simp add: ulp_def)
  have le: "2 powi e \<le> \<bar>x\<bar>" unfolding e_def using False by (intro float_exponent_le) simp
  have ulp: "ulp = 2 powi e / 2 ^ 52" by (simp add: ulp_def power_int_diff)
  have f: "fl x = of_int (round_half_even (x / ulp)) * ulp"
    using False by (simp add: fl_def Let_def ulp_def e_def)
  have "fl x - x = (of_int (round_half_even (x / ulp)) - x / ulp) * ulp"
    using pos by (simp add: f field_simps)
  then have "\<bar>fl x - x\<bar> = \<bar>of_int (round_half_even (x / ulp)) - x / ulp\<bar> * ulp"
    using pos by (simp only: abs_mult abs_of_pos)
  also have "\<dots> \<le> 1 / 2 * ulp"
    using pos round_half_even_error [of "x / ulp"] by (intro mult_right_mono) simp_all
  also have "\<dots> = 2 powi e / 2 ^ 53" by (simp add: ulp)
  also have "\<dots> \<le> \<bar>x\<bar> / 2 ^ 53" using le by (intro divide_right_mono) simp_all
  finally show ?thesis .
qed

lemma fl_nonneg: "0 \<le> x \<Longrightarrow> 0 \<le> fl x"
  by (simp add: fl_def Let_def round_half_even_nonneg)

lemma fl_upper: "0 \<le> x \<Longrightarrow> fl x \<le> x * (1 + 1 / 2 ^ 53)"
proof -
  assume "0 \<le> x"
  with fl_error [of x] have "\<bar>fl x - x\<bar> \<le> x / 2 ^ 53" by simp
  then have "fl x \<le> x + x / 2 ^ 53" by linarith
  also have "\<dots> = x * (1 + 1 / 2 ^ 53)" by (simp only: distrib_left mult_1_right times_divide_eq_right)
  finally show ?thesis .
qed

lemma fl_lower: "0 \<le> x \<Longrightarrow> x * (1 - 1 / 2 ^ 53) \<le> fl x"
proof -
  assume "0 \<le> x"
  with fl_error [of x] have "\<bar>fl x - x\<bar> \<le> x / 2 ^ 53" by simp
  then have "x - x / 2 ^ 53 \<le> fl x" by linarith
  moreover have "x - x / 2 ^ 53 = x * (1 - 1 / 2 ^ 53)"
    by (simp only: right_diff_distrib mult_1_right times_divide_eq_right)
  ultimately show ?thesis by (simp only:)
qed

text \<open>
  A float sum of numbers that are not negative differs from the exact sum by at most the
  factor \<open>(1 \<plusminus> 2\<^sup>-\<^sup>5\<^sup>3)\<^sup>n\<close>.
\<close>

lemma fsum_snoc: "fsum (xs @ [x]) = fl (fsum xs + x)"
  by (simp add: fsum_def)

lemma fsum_bounds:
  assumes "\<forall>x\<in>set xs. 0 \<le> x"
  shows "0 \<le> fsum xs
    \<and> sum_list xs * (1 - 1 / 2 ^ 53) ^ length xs \<le> fsum xs
    \<and> fsum xs \<le> sum_list xs * (1 + 1 / 2 ^ 53) ^ length xs"
  using assms
proof (induction xs rule: rev_induct)
  case Nil
  show ?case by (simp add: fsum_def)
next
  case (snoc x xs)
  define a where "a = fsum xs"
  define t where "t = sum_list xs"
  define lo :: rat where "lo = 1 - 1 / 2 ^ 53"
  define hi :: rat where "hi = 1 + 1 / 2 ^ 53"
  define n where "n = length xs"
  from snoc have a0: "0 \<le> a" and al: "t * lo ^ n \<le> a" and au: "a \<le> t * hi ^ n" and x0: "0 \<le> x"
    by (simp_all add: a_def t_def lo_def hi_def n_def)
  have t0: "0 \<le> t" unfolding t_def using snoc.prems by (intro sum_list_nonneg) simp
  have lo0: "0 \<le> lo" and lo1: "lo \<le> 1" and hi1: "1 \<le> hi" by (simp_all add: lo_def hi_def)
  have lon: "0 \<le> lo ^ n" "lo ^ n \<le> 1" using lo0 lo1 by (simp_all add: power_le_one)
  have hin: "1 \<le> hi ^ n" using hi1 by (rule one_le_power)
  have s0: "0 \<le> a + x" using a0 x0 by simp
  have f: "fsum (xs @ [x]) = fl (a + x)" by (simp add: fsum_snoc a_def)
  have "x * lo ^ n \<le> x" using x0 lon(2) by (simp add: mult_left_le)
  with al have "(t + x) * lo ^ n \<le> a + x" by (simp add: distrib_right)
  then have "(t + x) * lo ^ n * lo \<le> (a + x) * lo" using lo0 by (rule mult_right_mono)
  also have "\<dots> \<le> fl (a + x)" unfolding lo_def by (rule fl_lower [OF s0])
  finally have lower: "(t + x) * lo ^ Suc n \<le> fl (a + x)" by (simp add: mult_ac)
  have "x \<le> x * hi ^ n" using x0 hin by (simp add: mult_le_cancel_left1)
  with au have "a + x \<le> (t + x) * hi ^ n" by (simp add: distrib_right)
  then have "(a + x) * hi \<le> (t + x) * hi ^ n * hi" using hi1 by (intro mult_right_mono) simp_all
  moreover have "fl (a + x) \<le> (a + x) * hi" unfolding hi_def by (rule fl_upper [OF s0])
  ultimately have upper: "fl (a + x) \<le> (t + x) * hi ^ Suc n" by (simp add: mult_ac)
  have "0 \<le> fl (a + x)" by (rule fl_nonneg [OF s0])
  with lower upper show ?case
    unfolding f by (simp add: t_def lo_def hi_def n_def)
qed

lemma power_hi: "n \<le> 1000 \<Longrightarrow> (1 + 1 / 2 ^ 53 :: rat) ^ n \<le> 1 + 2 * of_nat n / 2 ^ 53"
proof (induction n)
  case 0
  show ?case by simp
next
  case (Suc n)
  define u :: rat where "u = 1 / 2 ^ 53"
  define m :: rat where "m = of_nat n"
  have m: "0 \<le> m" "m \<le> 1000" using Suc.prems by (simp_all add: m_def)
  have u: "0 < u" "u * 2000 \<le> 1" by (simp_all add: u_def)
  from Suc have ih: "(1 + u) ^ n \<le> 1 + 2 * m * u" by (simp add: u_def m_def)
  have "(1 + u) ^ Suc n = (1 + u) ^ n * (1 + u)" by simp
  also have "\<dots> \<le> (1 + 2 * m * u) * (1 + u)" using ih u by (intro mult_right_mono) simp_all
  also have "\<dots> = 1 + 2 * m * u + u + u * (2 * m * u)" by (simp add: algebra_simps)
  also have "\<dots> \<le> 1 + 2 * m * u + u + u * 1"
  proof -
    have "2 * m * u \<le> 2 * 1000 * u" using m u by (intro mult_right_mono mult_left_mono) simp_all
    with u have "2 * m * u \<le> 1" by linarith
    then have "u * (2 * m * u) \<le> u * 1" using u by (intro mult_left_mono) simp_all
    then show ?thesis by simp
  qed
  also have "\<dots> = 1 + 2 * (m + 1) * u" by (simp add: algebra_simps)
  finally show ?case by (simp add: u_def m_def algebra_simps)
qed

lemma power_lo: "1 - of_nat n / 2 ^ 53 \<le> (1 - 1 / 2 ^ 53 :: rat) ^ n"
  using Bernoulli_inequality [of "- 1 / 2 ^ 53 :: rat" n] by (simp add: algebra_simps)

section \<open>The priority cascade\<close>

text \<open>
  Claim C3. For every pair of a current value and a gap, \<open>calculate_priority_level\<close> of
  the backend engine is the canonical cascade, first match winning: below 2.0 with a gap
  above 1.5 is CRITICAL; else below 2.5 with a gap above 1.0 is HIGH; else a gap above
  1.5 is HIGH; else a gap above 0.8 is MEDIUM; else LOW. Current value 1.9 with gap 1.6 is
  CRITICAL, and 3.8 with 0.2 is LOW.
\<close>

theorem priority_level_follows_canonical_cascade:
  "calculate_priority_level_backend ist g = canonical_cascade ist g
   \<and> calculate_priority_level_backend (19 / 10) (16 / 10) = CRITICAL
   \<and> calculate_priority_level_backend (38 / 10) (2 / 10) = LOW"
  by (simp add: calculate_priority_level_backend_def canonical_cascade_def)

theorem priority_level_follows_canonical_cascade_witness:
  "calculate_priority_level_backend 3 (9 / 10) = canonical_cascade 3 (9 / 10)
   \<and> canonical_cascade 3 (9 / 10) = MEDIUM"
  using priority_level_follows_canonical_cascade [of 3 "9 / 10"]
  by (simp add: canonical_cascade_def)

text \<open>
  The root engine's function of the same name has the thresholds 0.8 and 0.5 in its third
  and fourth rule. It gives the two levels named above, and HIGH where the canonical
  cascade gives MEDIUM.
\<close>

lemma priority_level_root_differs:
  "calculate_priority_level_root (fl (19 / 10)) (fl (16 / 10)) = CRITICAL
   \<and> calculate_priority_level_root (fl (38 / 10)) (fl (2 / 10)) = LOW
   \<and> calculate_priority_level_root 3 (fl (9 / 10)) = HIGH
   \<and> canonical_cascade 3 (9 / 10) = MEDIUM"
  by code_simp

section \<open>Metrics of a list that is not eight scores long\<close>




section \<open>The context score\<close>

lemma factor_values_filter:
  "factor_values cfs name =
     (case filter (\<lambda>factor. factor_name factor = name) cfs of
        [] \<Rightarrow> None
      | found \<Rightarrow> Some (factor_value (last found)))"
  unfolding factor_values_def
  by (induction cfs rule: rev_induct) (auto split: list.splits)

lemma effective_value_supplied:
  "effective_value (factor_values cfs) =
     (\<lambda>name. if name = Ressourcenverfuegbarkeit then 3 - supplied_value cfs name
              else supplied_value cfs name)"
  by (rule ext)
    (simp add: effective_value_def supplied_value_def factor_values_filter Let_def split: list.splits)

lemma context_score_all_ones: "calculate_context_score_backend (all_factors_at 1) = 3 / 8"
  by (simp add: calculate_context_score_backend_def all_factors_at_def expected_factors_def
      factor_values_def effective_value_def Organisationsgroesse_def Technologische_Komplexitaet_def
      Ressourcenverfuegbarkeit_def py_round_def round_half_even_def Let_def)

text \<open>
  Claim C7. \<open>calculate_context_score\<close> of the backend engine, over the eight expected
  names, takes 1 for each name no factor supplies, replaces the resource-availability
  value by 3 minus itself, sums, divides by 24 and rounds to three decimals; the empty
  list gives exactly 0.5; all eight factors supplied at value 1 give exactly 0.375.
\<close>

theorem context_score_as_specified:
  "calculate_context_score_backend cfs = spec_context_score cfs
   \<and> calculate_context_score_backend [] = 1 / 2
   \<and> calculate_context_score_backend (all_factors_at 1) = 375 / 1000"
proof -
  have "calculate_context_score_backend cfs = spec_context_score cfs"
    by (simp add: calculate_context_score_backend_def spec_context_score_def
        effective_value_supplied Let_def)
  moreover have "calculate_context_score_backend [] = 1 / 2"
    by (simp add: calculate_context_score_backend_def)
  ultimately show ?thesis
    by (simp add: context_score_all_ones)
qed

theorem context_score_as_specified_witness:
  "calculate_context_score_backend sample_context_factors = spec_context_score sample_context_factors
   \<and> calculate_context_score_backend sample_context_factors = 625 / 1000"
  using context_score_as_specified [of sample_context_factors]
  by (simp add: calculate_context_score_backend_def sample_context_factors_def expected_factors_def
      factor_values_def effective_value_def Organisationsgroesse_def Technologische_Komplexitaet_def
      Ressourcenverfuegbarkeit_def py_round_def round_half_even_def Let_def)

text \<open>
  The root engine's function of the same name is the weighted formula over ten factors; a
  list of another length, the eight expected factors among them, gives its default 0.5.
\<close>

lemma context_score_root_differs:
  "calculate_context_score_root (all_factors_at 1) = 1 / 2
   \<and> calculate_context_score_backend (all_factors_at 1) = 375 / 1000"
proof
  show "calculate_context_score_root (all_factors_at 1) = 1 / 2"
    by (simp add: calculate_context_score_root_def all_factors_at_def expected_factors_def)
  show "calculate_context_score_backend (all_factors_at 1) = 375 / 1000"
    by (simp add: context_score_all_ones)
qed

section \<open>The range of the reported RGI\<close>

text \<open>
  Claim C8 says that each of EQI, RGI, SI, SBS and the context score lies in \<open>[0.0, 1.0]\<close>
  for eight scores with current and target values in \<open>[1.0, 4.0]\<close> and weights that sum to 1
  within the tolerance. The scores below are such an input: every value is 4.0, every
  weight lies in \<open>[0, 1]\<close> and the weights sum to 1.001. \<open>calculate_rgi\<close> of the backend
  engine returns 1.001 for them; the root engine's function clamps its result and returns
  1.0.
\<close>

theorem rgi_exceeds_one_within_tolerance:
  "length rgi_overflow_scores = 8
   \<and> list_all score_in_range rgi_overflow_scores
   \<and> \<bar>sum_list (map dynamic_weight rgi_overflow_scores) - 1\<bar> \<le> 1 / 1000
   \<and> calculate_rgi_backend rgi_overflow_scores = 1001 / 1000
   \<and> rgi (calculate_all_metrics rgi_overflow_scores []) = 1001 / 1000
   \<and> \<not> unit_interval (rgi (calculate_all_metrics rgi_overflow_scores []))
   \<and> calculate_rgi_root rgi_overflow_scores = 1"
proof -
  have b: "calculate_rgi_backend rgi_overflow_scores = 1001 / 1000" by code_simp
  have r: "calculate_rgi_root rgi_overflow_scores = 1" by code_simp
  have i: "length rgi_overflow_scores = 8 \<and> list_all score_in_range rgi_overflow_scores
      \<and> \<bar>sum_list (map dynamic_weight rgi_overflow_scores) - 1\<bar> \<le> 1 / 1000"
    by (simp add: rgi_overflow_scores_def score_in_range_def)
  from b r i show ?thesis
    by (simp add: calculate_all_metrics_def Let_def unit_interval_def)
qed

section \<open>The range of the context score\<close>

lemma factor_values_member: "factor_values cfs name = Some v \<Longrightarrow> \<exists>f\<in>set cfs. factor_value f = v"
  unfolding factor_values_def by (auto dest!: map_of_SomeD)

lemma effective_value_bounds:
  assumes "\<forall>f\<in>set cfs. 0 \<le> factor_value f \<and> factor_value f \<le> 3"
  shows "0 \<le> effective_value (factor_values cfs) name \<and> effective_value (factor_values cfs) name \<le> 3"
proof (cases "factor_values cfs name")
  case None
  then show ?thesis by (simp add: effective_value_def)
next
  case (Some v)
  with assms factor_values_member [OF Some] have "0 \<le> v \<and> v \<le> 3" by auto
  with Some show ?thesis by (simp add: effective_value_def)
qed

lemma sum_list_upper: "\<forall>x\<in>set xs. f x \<le> (c :: int) \<Longrightarrow> sum_list (map f xs) \<le> int (length xs) * c"
  by (induction xs) (auto simp: algebra_simps)

lemma context_score_backend_unit:
  assumes "\<forall>f\<in>set cfs. 0 \<le> factor_value f \<and> factor_value f \<le> 3"
  shows "0 \<le> calculate_context_score_backend cfs \<and> calculate_context_score_backend cfs \<le> 1"
proof (cases "cfs = []")
  case True
  then show ?thesis by (simp add: calculate_context_score_backend_def)
next
  case False
  let ?t = "\<Sum>name\<leftarrow>expected_factors. effective_value (factor_values cfs) name"
  have "0 \<le> ?t"
    by (rule sum_list_nonneg) (use effective_value_bounds [OF assms] in auto)
  moreover have "?t \<le> int (length expected_factors) * 3"
    by (rule sum_list_upper) (use effective_value_bounds [OF assms] in auto)
  then have "?t \<le> 24" by (simp add: expected_factors_def)
  ultimately have "0 \<le> (of_int ?t :: rat) / 24" and "(of_int ?t :: rat) / 24 \<le> 1" by simp_all
  with False show ?thesis by (simp add: calculate_context_score_backend_def Let_def py_round_unit)
qed

section \<open>The backend weights and the context score\<close>

lemma sum_list_scaled:
  "sum_list (map snd (map (\<lambda>(d, w). (d, w * c)) (T :: weights))) = sum_list (map snd T) * c"
  by (induction T) (auto simp: algebra_simps)

lemma normalize_scaled_table:
  assumes total: "sum_list (map snd (T :: weights)) = 1"
    and cf: "cf \<noteq> 0"
    and fixed: "map (\<lambda>(d, w). (d, py_round w 3)) T = T"
  shows "map (\<lambda>(d, w). (d, py_round (w / sum_list (map snd (map (\<lambda>(d, w). (d, w * cf)) T))) 3))
           (map (\<lambda>(d, w). (d, w * cf)) T) = T"
proof -
  have "map (\<lambda>(d, w). (d, py_round (w / cf) 3)) (map (\<lambda>(d, w). (d, w * cf)) T)
          = map (\<lambda>(d, w). (d, py_round w 3)) T"
    using cf by (simp add: o_def case_prod_unfold)
  then show ?thesis by (simp only: sum_list_scaled total mult_1 fixed)
qed

lemma base_weights_cases:
  "base_weights_of a = CHAOTIC_DOER_WEIGHTS \<or> base_weights_of a = CAUTIOUS_CORPORATE_WEIGHTS
   \<or> base_weights_of a = STAGNANT_ESTABLISHED_WEIGHTS \<or> base_weights_of a = BALANCED_TRANSFORMER_WEIGHTS"
  by (simp add: base_weights_of_def ARCHETYPE_WEIGHTS_def)

lemma base_weights_total: "sum_list (map snd (base_weights_of a)) = 1"
  using base_weights_cases [of a]
  by (auto simp: CHAOTIC_DOER_WEIGHTS_def CAUTIOUS_CORPORATE_WEIGHTS_def
      STAGNANT_ESTABLISHED_WEIGHTS_def BALANCED_TRANSFORMER_WEIGHTS_def)

lemma tables_fixed_by_rounding:
  "map (\<lambda>(d, w). (d, py_round w 3)) CHAOTIC_DOER_WEIGHTS = CHAOTIC_DOER_WEIGHTS"
  "map (\<lambda>(d, w). (d, py_round w 3)) CAUTIOUS_CORPORATE_WEIGHTS = CAUTIOUS_CORPORATE_WEIGHTS"
  "map (\<lambda>(d, w). (d, py_round w 3)) STAGNANT_ESTABLISHED_WEIGHTS = STAGNANT_ESTABLISHED_WEIGHTS"
  "map (\<lambda>(d, w). (d, py_round w 3)) BALANCED_TRANSFORMER_WEIGHTS = BALANCED_TRANSFORMER_WEIGHTS"
  by (simp_all add: CHAOTIC_DOER_WEIGHTS_def CAUTIOUS_CORPORATE_WEIGHTS_def
      STAGNANT_ESTABLISHED_WEIGHTS_def BALANCED_TRANSFORMER_WEIGHTS_def
      py_round_def round_half_even_def)

lemma base_weights_fixed: "map (\<lambda>(d, w). (d, py_round w 3)) (base_weights_of a) = base_weights_of a"
  using base_weights_cases [of a] by (auto simp: tables_fixed_by_rounding)

text \<open>
  The call returns the archetype's table whenever the context multiplier is not zero,
  that is for every context score but \<open>-4.5\<close>.
\<close>

lemma backend_weights_are_base_weights:
  assumes "1 + (c - 1 / 2) * (2 / 10) \<noteq> (0 :: rat)"
  shows "calculate_dynamic_weights_backend a c ds = Inr (base_weights_of a)"
proof -
  let ?cf = "1 + (c - 1 / 2) * (2 / 10)"
  let ?adj = "map (\<lambda>(d, w). (d, w * ?cf)) (base_weights_of a)"
  have tot: "sum_list (map snd ?adj) = ?cf"
    by (simp only: sum_list_scaled base_weights_total mult_1)
  have "map (\<lambda>(d, w). (d, py_round (w / sum_list (map snd ?adj)) 3)) ?adj = base_weights_of a"
    using assms by (intro normalize_scaled_table base_weights_total base_weights_fixed)
  with tot assms show ?thesis
    by (simp add: calculate_dynamic_weights_backend_def Let_def)
qed

lemma context_factor_nonzero: "0 \<le> c \<Longrightarrow> 1 + (c - 1 / 2) * (2 / 10) \<noteq> (0 :: rat)"
proof
  assume "0 \<le> c" and "1 + (c - 1 / 2) * (2 / 10) = 0"
  then have "c = - 9 / 2" by (simp add: field_simps)
  with \<open>0 \<le> c\<close> show False by simp
qed

lemma backend_weights_at_zero_multiplier:
  "calculate_dynamic_weights_backend a (- 9 / 2) ds = Inl ZeroDivisionError"
  unfolding calculate_dynamic_weights_backend_def Let_def sum_list_scaled by simp

text \<open>
  Claim C10. In the backend engine the result of \<open>calculate_dynamic_weights\<close> does not
  depend on the context score: for every archetype and every two context scores, each a
  value of \<open>[0, 1]\<close>, the two calls return equal dictionaries, whatever dimension scores
  are supplied. The uniform multiplier cancels in the normalization, and what is left is
  the archetype's table of base weights.
\<close>

theorem backend_weights_independent_of_context:
  assumes "0 \<le> c1" "c1 \<le> 1" "0 \<le> c2" "c2 \<le> 1"
  shows "calculate_dynamic_weights_backend archetype c1 scores1
           = calculate_dynamic_weights_backend archetype c2 scores2
         \<and> calculate_dynamic_weights_backend archetype c1 scores1 = Inr (base_weights_of archetype)"
proof -
  have "calculate_dynamic_weights_backend archetype c1 scores1 = Inr (base_weights_of archetype)"
    using \<open>0 \<le> c1\<close> by (intro backend_weights_are_base_weights context_factor_nonzero)
  moreover have "calculate_dynamic_weights_backend archetype c2 scores2 = Inr (base_weights_of archetype)"
    using \<open>0 \<le> c2\<close> by (intro backend_weights_are_base_weights context_factor_nonzero)
  ultimately show ?thesis by simp
qed

theorem backend_weights_independent_of_context_witness:
  "(0 :: rat) \<le> 0 \<and> (0 :: rat) \<le> 1 \<and> (0 :: rat) \<le> 625 / 1000 \<and> (625 / 1000 :: rat) \<le> 1
   \<and> calculate_dynamic_weights_backend ''CHAOTIC_DOER'' 0 None
       = calculate_dynamic_weights_backend ''CHAOTIC_DOER'' (625 / 1000) (Some sample_dimension_scores)
   \<and> calculate_dynamic_weights_backend ''CHAOTIC_DOER'' 0 None = Inr CHAOTIC_DOER_WEIGHTS"
  using backend_weights_independent_of_context
    [of 0 "625 / 1000" "''CHAOTIC_DOER''" None "Some sample_dimension_scores"]
  by (auto simp add: base_weights_of_def ARCHETYPE_WEIGHTS_def)

section \<open>The recommendation list\<close>

lemma recommendation_of_fields:
  "rec_priority (recommendation_of s) = computed_priority s"
  "rec_dimension_id (recommendation_of s) = dimension_id s"
  "rec_gap (recommendation_of s) = \<bar>fl (fl (ist_value s) - fl (soll_value s))\<bar>"
  by (simp_all add: recommendation_of_def computed_priority_def calculate_subdimension_gap_root_def Let_def)

lemma priority_order_is_rank: "priority_order p = priority_rank p"
  by (cases p) simp_all

lemma key_le_iff: "recommendation_key a \<le> recommendation_key b \<longleftrightarrow> ranked_before a b"
  by (auto simp: recommendation_key_def ranked_before_def less_eq_prod_def priority_order_is_rank)

text \<open>
  Claim C9. The list \<open>generate_recommendations\<close> returns holds one record for exactly
  those dimension scores whose computed priority is CRITICAL or HIGH, and it is sorted:
  the priority rank (CRITICAL 0, HIGH 1, MEDIUM 2, LOW 3) does not decrease along the
  list, and among records of equal rank the gap does not increase.
\<close>

theorem recommendations_selected_and_sorted:
  "mset (generate_recommendations dimension_scores)
     = mset (map recommendation_of (filter urgent dimension_scores))
   \<and> mset (map rec_dimension_id (generate_recommendations dimension_scores))
     = mset (map dimension_id (filter urgent dimension_scores))
   \<and> sorted_wrt ranked_before (generate_recommendations dimension_scores)"
proof -
  have sel: "filter (\<lambda>x. rec_priority x \<in> {CRITICAL, HIGH}) (map recommendation_of dimension_scores)
        = map recommendation_of (filter urgent dimension_scores)"
    by (simp add: filter_map o_def urgent_def [abs_def] recommendation_of_fields)
  have 1: "mset (generate_recommendations dimension_scores)
     = mset (map recommendation_of (filter urgent dimension_scores))"
    unfolding generate_recommendations_def Let_def by (simp only: mset_sort sel)
  have "mset (map rec_dimension_id (generate_recommendations dimension_scores))
     = image_mset rec_dimension_id (mset (generate_recommendations dimension_scores))"
    by simp
  also have "\<dots> = mset (map dimension_id (filter urgent dimension_scores))"
    by (simp add: 1 recommendation_of_fields multiset.map_comp o_def)
  finally have 2: "mset (map rec_dimension_id (generate_recommendations dimension_scores))
     = mset (map dimension_id (filter urgent dimension_scores))" .
  have "sorted (map recommendation_key (generate_recommendations dimension_scores))"
    by (simp add: generate_recommendations_def Let_def)
  then have 3: "sorted_wrt ranked_before (generate_recommendations dimension_scores)"
    by (simp add: sorted_map key_le_iff)
  from 1 2 3 show ?thesis by simp
qed

lemma sample_recommendations:
  "map (\<lambda>r. (rec_dimension_id r, rec_priority r, rec_gap r)) (generate_recommendations sample_dimension_scores)
     = [(''D4'', CRITICAL, 2), (''D3'', HIGH, fl (12 / 10)), (''D8'', HIGH, 1)]
   \<and> map dimension_id (filter urgent sample_dimension_scores) = [''D3'', ''D4'', ''D8'']"
  by code_simp

lemma grid_recommendations:
  "computed_priority grid_score = HIGH
   \<and> fl (8 / 10) < rec_gap (recommendation_of grid_score)
   \<and> map rec_dimension_id (generate_recommendations [grid_score, critical_score]) = [''D2'', ''D1'']
   \<and> map rec_priority (generate_recommendations [grid_score, critical_score]) = [CRITICAL, HIGH]"
  by code_simp

theorem recommendations_selected_and_sorted_witness:
  "map (\<lambda>r. (rec_dimension_id r, rec_priority r, rec_gap r)) (generate_recommendations sample_dimension_scores)
     = [(''D4'', CRITICAL, 2), (''D3'', HIGH, fl (12 / 10)), (''D8'', HIGH, 1)]
   \<and> map dimension_id (filter urgent sample_dimension_scores) = [''D3'', ''D4'', ''D8'']
   \<and> sorted_wrt ranked_before (generate_recommendations sample_dimension_scores)
   \<and> map rec_priority (generate_recommendations [grid_score, critical_score]) = [CRITICAL, HIGH]
   \<and> sorted_wrt ranked_before (generate_recommendations [grid_score, critical_score])"
  using recommendations_selected_and_sorted [of sample_dimension_scores]
    recommendations_selected_and_sorted [of "[grid_score, critical_score]"]
    sample_recommendations grid_recommendations
  by blast

section \<open>Rounding and correcting the normalized weights\<close>

lemma max_key_from_split:
  "\<exists>pre v post. best # rest = pre @ (max_key_from best rest, v) # post
      \<and> (\<forall>x\<in>set pre. snd x < v) \<and> (\<forall>x\<in>set post. snd x \<le> v)"
proof (induction rest arbitrary: best)
  case Nil
  show ?case
  proof (intro exI conjI)
    show "[best] = [] @ (max_key_from best [], snd best) # []" by simp
  qed simp_all
next
  case (Cons item rest)
  show ?case
  proof (cases "snd item > snd best")
    case True
    from Cons.IH [of item] obtain pre v post where
      split: "item # rest = pre @ (max_key_from item rest, v) # post"
      and pre: "\<forall>x\<in>set pre. snd x < v" and post: "\<forall>x\<in>set post. snd x \<le> v"
      by blast
    have "snd item \<le> v"
    proof (cases pre)
      case Nil
      have "snd (hd (item # rest)) = snd (hd (pre @ (max_key_from item rest, v) # post))"
        by (simp only: split)
      with Nil show ?thesis by simp
    next
      case (Cons p ps)
      have "hd (item # rest) = hd (pre @ (max_key_from item rest, v) # post)"
        by (simp only: split)
      with Cons have "item = p" by simp
      with Cons pre show ?thesis by auto
    qed
    with True have less: "snd best < v" by simp
    have key: "max_key_from best (item # rest) = max_key_from item rest" using True by simp
    show ?thesis
    proof (intro exI conjI)
      show "best # item # rest = (best # pre) @ (max_key_from best (item # rest), v) # post"
        by (simp only: key split [symmetric] append_Cons)
      show "\<forall>x\<in>set (best # pre). snd x < v" using less pre by simp
      show "\<forall>x\<in>set post. snd x \<le> v" by fact
    qed
  next
    case False
    from Cons.IH [of best] obtain pre v post where
      split: "best # rest = pre @ (max_key_from best rest, v) # post"
      and pre: "\<forall>x\<in>set pre. snd x < v" and post: "\<forall>x\<in>set post. snd x \<le> v"
      by blast
    have key: "max_key_from best (item # rest) = max_key_from best rest" using False by simp
    show ?thesis
    proof (cases pre)
      case Nil
      have "hd (best # rest) = hd (pre @ (max_key_from best rest, v) # post)"
        and "tl (best # rest) = tl (pre @ (max_key_from best rest, v) # post)"
        by (simp_all only: split)
      with Nil have b: "best = (max_key_from best rest, v)" and r: "rest = post" by simp_all
      from b have "snd best = v" by (metis snd_conv)
      with False have "snd item \<le> v" by simp
      show ?thesis
      proof (intro exI conjI)
        show "best # item # rest = [] @ (max_key_from best (item # rest), v) # (item # post)"
          using b r key by simp
        show "\<forall>x\<in>set (item # post). snd x \<le> v" using \<open>snd item \<le> v\<close> post by simp
      qed simp
    next
      case (Cons p ps)
      have "hd (best # rest) = hd (pre @ (max_key_from best rest, v) # post)"
        and "tl (best # rest) = tl (pre @ (max_key_from best rest, v) # post)"
        by (simp_all only: split)
      with Cons have b: "best = p" and r: "rest = ps @ (max_key_from best rest, v) # post" by simp_all
      from b Cons pre have "snd best < v" by auto
      with False have "snd item < v" by simp
      show ?thesis
      proof (intro exI conjI)
        show "best # item # rest = (best # item # ps) @ (max_key_from best (item # rest), v) # post"
          using r key by simp
        show "\<forall>x\<in>set (best # item # ps). snd x < v"
          using \<open>snd best < v\<close> \<open>snd item < v\<close> pre Cons by simp
        show "\<forall>x\<in>set post. snd x \<le> v" by fact
      qed
    qed
  qed
qed

lemma max_key_split:
  assumes "rs \<noteq> []"
  shows "\<exists>pre g v post. max_key rs = Inr g \<and> rs = pre @ (g, v) # post
      \<and> (\<forall>x\<in>set pre. snd x < v) \<and> (\<forall>x\<in>set post. snd x \<le> v)"
proof -
  from assms obtain b rest where rs: "rs = b # rest" by (cases rs) auto
  from max_key_from_split [of b rest] rs show ?thesis
    by (auto simp: max_key_def)
qed

lemma quantize3_le: "quantize3 w \<le> w + 1 / 2000"
proof -
  have "of_int (round_half_up (w * 1000)) \<le> w * 1000 + 1 / 2"
    unfolding round_half_up_def by (auto; linarith)
  then show ?thesis by (simp add: quantize3_def field_simps)
qed

lemma quantize3_floor: "1 / 100 \<le> w \<Longrightarrow> 1 / 100 \<le> quantize3 w"
proof -
  assume "1 / 100 \<le> w"
  then have w: "of_int 10 \<le> w * 1000 + 1 / 2" and pos: "0 \<le> w * 1000" by simp_all
  from w have "10 \<le> \<lfloor>w * 1000 + 1 / 2\<rfloor>" by (simp only: le_floor_iff)
  with pos have "10 \<le> round_half_up (w * 1000)" by (simp add: round_half_up_def)
  then have "(of_int 10 :: rat) \<le> of_int (round_half_up (w * 1000))" by (simp only: of_int_le_iff)
  then show ?thesis by (simp add: quantize3_def field_simps)
qed

lemma sum_list_bounded_above:
  "\<forall>x\<in>set xs. f x \<le> (c :: rat) \<Longrightarrow> sum_list (map f xs) \<le> of_nat (length xs) * c"
  by (induction xs) (auto simp: algebra_simps)

lemma sum_list_divide_const:
  "sum_list (map snd (map (\<lambda>(k, w). (k, w / c)) (ws :: weights))) = sum_list (map snd ws) / c"
  by (induction ws) (auto simp: add_divide_distrib)

lemma keys_map_values: "map fst (map (\<lambda>(k, w). (k, f w)) (ws :: weights)) = map fst ws"
  by (induction ws) auto

lemma values_map_values: "map snd (map (\<lambda>(k, w). (k, f w)) (ws :: weights)) = map f (map snd ws)"
  by (induction ws) auto

lemma sum_list_quantize3:
  "sum_list (map quantize3 xs) \<le> sum_list xs + of_nat (length xs) * (1 / 2000)"
proof (induction xs)
  case Nil
  show ?case by simp
next
  case (Cons x xs)
  have "sum_list (map quantize3 (x # xs)) = quantize3 x + sum_list (map quantize3 xs)" by simp
  also have "\<dots> \<le> (x + 1 / 2000) + (sum_list xs + of_nat (length xs) * (1 / 2000))"
    by (rule add_mono [OF quantize3_le Cons.IH])
  also have "\<dots> = sum_list (x # xs) + of_nat (length (x # xs)) * (1 / 2000)"
    by (simp add: algebra_simps)
  finally show ?case .
qed


lemma update_absent_key:
  "\<forall>x\<in>set xs. fst x \<noteq> g \<Longrightarrow> map (\<lambda>(k, w). if k = g then (k, f w) else (k, w)) xs = xs"
  by (induction xs) auto

lemma update_key_split:
  assumes "distinct (map fst (pre @ (g, v) # post))"
  shows "map (\<lambda>(k, w). if k = g then (k, f w) else (k, w)) (pre @ (g, v) # post)
           = pre @ (g, f v) # post"
proof -
  have "\<forall>x\<in>set pre. fst x \<noteq> g" and "\<forall>x\<in>set post. fst x \<noteq> g" using assms by auto
  then show ?thesis by (simp add: update_absent_key)
qed

lemma round_and_correct_cases:
  assumes "distinct (map fst ws)" "ws \<noteq> []"
  shows "let rounded = map (\<lambda>(k, w). (k, fl (quantize3 w))) ws;
             residual = fl (1 - fsum (map snd rounded))
         in if \<bar>residual\<bar> > fl (1 / 10000) then
              \<exists>pre g v post. rounded = pre @ (g, v) # post
                \<and> (\<forall>x\<in>set pre. snd x < v) \<and> (\<forall>x\<in>set post. snd x \<le> v)
                \<and> round_and_correct ws = Inr (pre @ (g, fl (v + residual)) # post)
            else round_and_correct ws = Inr rounded"
proof -
  let ?r = "map (\<lambda>(k, w). (k, fl (quantize3 w))) ws"
  let ?d = "fl (1 - fsum (map snd ?r))"
  have keys: "map fst ?r = map fst ws" by (induction ws) auto
  have ne: "?r \<noteq> []" using assms(2) by simp
  show ?thesis
  proof (cases "\<bar>?d\<bar> > fl (1 / 10000)")
    case False
    then show ?thesis by (simp add: round_and_correct_def Let_def)
  next
    case True
    from max_key_split [OF ne] obtain pre g v post where
      mk: "max_key ?r = Inr g" and split: "?r = pre @ (g, v) # post"
      and pre: "\<forall>x\<in>set pre. snd x < v" and post: "\<forall>x\<in>set post. snd x \<le> v"
      by blast
    have "distinct (map fst (pre @ (g, v) # post))" using assms(1) keys split by metis
    then have upd: "map (\<lambda>(k, w). if k = g then (k, fl (w + ?d)) else (k, w)) ?r = pre @ (g, fl (v + ?d)) # post"
      using update_key_split [of pre g v post "\<lambda>w. fl (w + ?d)"] split by simp
    have rc: "round_and_correct ws = Inr (pre @ (g, fl (v + ?d)) # post)"
      using True mk upd by (simp add: round_and_correct_def Let_def)
    with True split pre post show ?thesis
      unfolding Let_def by (simp only: if_True) blast
  qed
qed

lemma fsum_error:
  assumes nonneg: "\<forall>x\<in>set xs. 0 \<le> x" and len: "length xs \<le> 1000" and tot: "sum_list xs \<le> 16 / 10"
  shows "\<bar>fsum xs - sum_list xs\<bar> \<le> 3200 / 2 ^ 53"
proof -
  define T where "T = sum_list xs"
  define n :: rat where "n = of_nat (length xs)"
  define u :: rat where "u = 1 / 2 ^ 53"
  have T0: "0 \<le> T" unfolding T_def using nonneg by (intro sum_list_nonneg) simp
  have T1: "T \<le> 16 / 10" using tot by (simp add: T_def)
  have n: "0 \<le> n" "n \<le> 1000" using len by (simp_all add: n_def)
  have u: "0 \<le> u" by (simp add: u_def)
  have nu: "0 \<le> n * u" "n * u \<le> 1000 * u" using n u by (simp_all add: mult_right_mono)
  from fsum_bounds [OF nonneg]
  have lo: "T * (1 - u) ^ length xs \<le> fsum xs" and hi: "fsum xs \<le> T * (1 + u) ^ length xs"
    by (simp_all add: T_def u_def)
  have "(1 + u) ^ length xs \<le> 1 + 2 * (n * u)"
    using power_hi [OF len] by (simp add: u_def n_def)
  then have "T * (1 + u) ^ length xs \<le> T * (1 + 2 * (n * u))" using T0 by (rule mult_left_mono)
  with hi have h: "fsum xs - T \<le> T * (2 * (n * u))" by (simp add: algebra_simps)
  have a: "2 * (n * u) \<le> 2 * (1000 * u)" and b: "0 \<le> 2 * (n * u)" using nu by simp_all
  have "T * (2 * (n * u)) \<le> 16 / 10 * (2 * (1000 * u))"
    by (rule mult_mono [OF T1 a _ b]) simp
  with h have upper: "fsum xs - T \<le> 3200 * u" by simp
  have "1 - n * u \<le> (1 - u) ^ length xs"
    using power_lo [of "length xs"] by (simp add: u_def n_def)
  then have "T * (1 - n * u) \<le> T * (1 - u) ^ length xs" using T0 by (rule mult_left_mono)
  with lo have l: "T - fsum xs \<le> T * (n * u)" by (simp add: algebra_simps)
  have "T * (n * u) \<le> 16 / 10 * (1000 * u)"
    by (rule mult_mono [OF T1 nu(2) _ nu(1)]) simp
  with l have lower: "T - fsum xs \<le> 3200 * u" using u by simp
  from upper lower have "\<bar>fsum xs - T\<bar> \<le> 3200 * u" by linarith
  then show ?thesis by (simp add: T_def u_def)
qed

lemma correction_error:
  assumes nonneg: "\<forall>x\<in>set xs. 0 \<le> x" and len: "length xs \<le> 1000" and tot: "sum_list xs \<le> 16 / 10"
    and v: "0 \<le> v" "v \<le> 11 / 10"
  defines "d \<equiv> fl (1 - fsum xs)"
  shows "\<bar>d - (1 - fsum xs)\<bar> \<le> 3 / 2 ^ 53"
    and "\<bar>fl (v + d) - (v + d)\<bar> \<le> 5 / 2 ^ 53"
proof -
  define S where "S = fsum xs"
  define u :: rat where "u = 1 / 2 ^ 53"
  have u: "0 \<le> u" "u \<le> 1 / 10000" by (simp_all add: u_def)
  have S0: "0 \<le> S" using fsum_bounds [OF nonneg] by (simp add: S_def)
  have "\<bar>S - sum_list xs\<bar> \<le> 3200 * u" using fsum_error [OF nonneg len tot] by (simp add: S_def u_def)
  with tot u have S1: "S \<le> 2" by linarith
  with S0 have a: "\<bar>1 - S\<bar> \<le> 3" by linarith
  have "\<bar>d - (1 - S)\<bar> \<le> \<bar>1 - S\<bar> * u" using fl_error [of "1 - S"] by (simp add: d_def S_def u_def)
  also have "\<dots> \<le> 3 * u" using a u by (intro mult_right_mono) simp_all
  finally have e2: "\<bar>d - (1 - S)\<bar> \<le> 3 * u" .
  then show "\<bar>d - (1 - fsum xs)\<bar> \<le> 3 / 2 ^ 53" by (simp add: S_def u_def)
  from e2 a u have "\<bar>d\<bar> \<le> 31 / 10" by linarith
  with v have b: "\<bar>v + d\<bar> \<le> 5" by linarith
  have "\<bar>fl (v + d) - (v + d)\<bar> \<le> \<bar>v + d\<bar> * u" using fl_error [of "v + d"] by (simp add: u_def)
  also have "\<dots> \<le> 5 * u" using b u by (intro mult_right_mono) simp_all
  finally show "\<bar>fl (v + d) - (v + d)\<bar> \<le> 5 / 2 ^ 53" by (simp add: u_def)
qed

lemma corrected_sum:
  assumes nonneg: "\<forall>x\<in>set (pre @ v # post). 0 \<le> x" and len: "length (pre @ v # post) \<le> 1000"
    and tot: "sum_list (pre @ v # post) \<le> 16 / 10" and v: "v \<le> 11 / 10"
  defines "d \<equiv> fl (1 - fsum (pre @ v # post))"
  shows "\<bar>sum_list (pre @ fl (v + d) # post) - 1\<bar> \<le> 1 / 10 ^ 12"
proof -
  define S where "S = fsum (pre @ v # post)"
  define T where "T = sum_list (pre @ v # post)"
  define u :: rat where "u = 1 / 2 ^ 53"
  have v0: "0 \<le> v" using nonneg by simp
  have e1: "\<bar>S - T\<bar> \<le> 3200 * u" using fsum_error [OF nonneg len tot] by (simp add: S_def T_def u_def)
  have e2: "\<bar>d - (1 - S)\<bar> \<le> 3 * u" and e3: "\<bar>fl (v + d) - (v + d)\<bar> \<le> 5 * u"
    using correction_error [OF nonneg len tot v0 v] by (simp_all add: d_def S_def u_def)
  have "sum_list (pre @ fl (v + d) # post) = T - v + fl (v + d)" by (simp add: T_def)
  then have "sum_list (pre @ fl (v + d) # post) - 1 = (T - S) + (d - (1 - S)) + (fl (v + d) - (v + d))"
    by simp
  with e1 e2 e3 have "\<bar>sum_list (pre @ fl (v + d) # post) - 1\<bar> \<le> 3208 * u" by linarith
  moreover have "3208 * u \<le> 1 / 10 ^ 12" by (simp add: u_def)
  ultimately show ?thesis by linarith
qed

lemma quantize3_nonneg: "0 \<le> w \<Longrightarrow> 0 \<le> quantize3 w"
proof -
  assume "0 \<le> w"
  then have "0 \<le> \<lfloor>w * 1000 + 1 / 2\<rfloor>" by simp
  with \<open>0 \<le> w\<close> show ?thesis by (simp add: quantize3_def round_half_up_def)
qed

lemma quantize3_le_one: "0 \<le> w \<Longrightarrow> w \<le> 1 \<Longrightarrow> quantize3 w \<le> 1"
proof -
  assume "0 \<le> w" and "w \<le> 1"
  then have "w * 1000 + 1 / 2 < of_int 1001" by simp
  then have "\<lfloor>w * 1000 + 1 / 2\<rfloor> < 1001" by (simp only: floor_less_iff)
  then have "(of_int \<lfloor>w * 1000 + 1 / 2\<rfloor> :: rat) \<le> of_int 1000" by (simp only: of_int_le_iff)
  with \<open>0 \<le> w\<close> show ?thesis by (simp add: quantize3_def round_half_up_def)
qed

lemma sum_list_fl_upper:
  "\<forall>x\<in>set xs. 0 \<le> x \<Longrightarrow> sum_list (map fl xs) \<le> sum_list xs * (1 + 1 / 2 ^ 53)"
proof (induction xs)
  case Nil
  show ?case by simp
next
  case (Cons x xs)
  then have "fl x \<le> x * (1 + 1 / 2 ^ 53)" by (intro fl_upper) simp
  moreover from Cons have "sum_list (map fl xs) \<le> sum_list xs * (1 + 1 / 2 ^ 53)" by simp
  ultimately show ?case by (simp add: distrib_right)
qed

lemma member_le_sum:
  "\<forall>x\<in>set xs. (0 :: rat) \<le> x \<Longrightarrow> y \<in> set xs \<Longrightarrow> y \<le> sum_list xs"
proof (induction xs)
  case Nil
  then show ?case by simp
next
  case (Cons x xs)
  then have "0 \<le> sum_list xs" by (intro sum_list_nonneg) simp
  with Cons show ?case by auto
qed

lemma rounded_values_bounds:
  assumes nonneg: "\<forall>w\<in>set xs. 0 \<le> w" and total: "sum_list xs = 1" and len: "length xs \<le> 1000"
  defines "rs \<equiv> map (\<lambda>w. fl (quantize3 w)) xs"
  shows "\<forall>r\<in>set rs. 0 \<le> r \<and> r \<le> 11 / 10" and "sum_list rs \<le> 16 / 10"
proof -
  define u :: rat where "u = 1 / 2 ^ 53"
  have u: "0 \<le> u" "u \<le> 1 / 100" by (simp_all add: u_def)
  show "\<forall>r\<in>set rs. 0 \<le> r \<and> r \<le> 11 / 10"
  proof
    fix r assume "r \<in> set rs"
    then obtain w where w: "w \<in> set xs" and r: "r = fl (quantize3 w)" by (auto simp: rs_def)
    from w nonneg have w0: "0 \<le> w" by blast
    from member_le_sum [OF nonneg w] total have w1: "w \<le> 1" by simp
    have q0: "0 \<le> quantize3 w" and q1: "quantize3 w \<le> 1"
      using w0 w1 by (simp_all add: quantize3_nonneg quantize3_le_one)
    have "fl (quantize3 w) \<le> quantize3 w * (1 + u)" unfolding u_def by (rule fl_upper [OF q0])
    also have "\<dots> \<le> 1 * (1 + u)" using q1 u by (intro mult_right_mono) simp_all
    finally have "fl (quantize3 w) \<le> 11 / 10" using u by simp
    with fl_nonneg [OF q0] show "0 \<le> r \<and> r \<le> 11 / 10" by (simp add: r)
  qed
  have q: "\<forall>x\<in>set (map quantize3 xs). 0 \<le> x" using nonneg by (auto simp: quantize3_nonneg)
  have "sum_list rs = sum_list (map fl (map quantize3 xs))" by (simp add: rs_def o_def)
  also have "\<dots> \<le> sum_list (map quantize3 xs) * (1 + u)" unfolding u_def by (rule sum_list_fl_upper [OF q])
  also have "\<dots> \<le> (sum_list xs + of_nat (length xs) * (1 / 2000)) * (1 + u)"
    using u by (intro mult_right_mono sum_list_quantize3) simp
  also have "\<dots> \<le> (1 + 1000 * (1 / 2000)) * (1 + u)"
    using len u total by (intro mult_right_mono add_mono mult_right_mono) simp_all
  also have "\<dots> \<le> 16 / 10" using u by simp
  finally show "sum_list rs \<le> 16 / 10" .
qed







section \<open>The eight rules of the weighting pipeline\<close>

lemma keys_scale: "map fst (scale g ws) = map fst ws"
  by (induction ws) (auto simp: scale_def)

lemma scale_scale: "scale g (scale h ws) = scale (\<lambda>k. h k * g k) ws"
  by (induction ws) (auto simp: scale_def)

lemma scale_cong: "(\<And>k. k \<in> set (map fst ws) \<Longrightarrow> g k = h k) \<Longrightarrow> scale g ws = scale h ws"
  by (induction ws) (auto simp: scale_def)

lemma mul_weight_scale:
  "k \<in> set (map fst ws) \<Longrightarrow> mul_weight ws k f = Inr (scale (\<lambda>k'. if k' = k then f else 1) ws)"
proof -
  have "map (\<lambda>(k', w). if k' = k then (k', w * f) else (k', w)) ws
          = scale (\<lambda>k'. if k' = k then f else 1) ws"
    by (induction ws) (auto simp: scale_def)
  then show "k \<in> set (map fst ws) \<Longrightarrow> ?thesis" by (simp add: mul_weight_def)
qed

lemma multiply_where_scale:
  assumes "\<forall>s\<in>set ds. dimension_id s \<in> set (map fst ws)"
  shows "multiply_where c f ws ds = Inr (scale (\<lambda>k. f ^ occurrences c ds k) ws)"
  using assms
proof (induction ds arbitrary: ws)
  case Nil
  have "scale (\<lambda>k. 1) ws = ws" by (induction ws) (auto simp: scale_def)
  then show ?case by (simp add: occurrences_def)
next
  case (Cons s ds)
  show ?case
  proof (cases "c s")
    case False
    have "\<And>k. occurrences c (s # ds) k = occurrences c ds k" using False by (simp add: occurrences_def)
    with Cons False show ?thesis by simp
  next
    case True
    let ?ws = "scale (\<lambda>k'. if k' = dimension_id s then f else 1) ws"
    have m: "mul_weight ws (dimension_id s) f = Inr ?ws"
      using Cons.prems by (intro mul_weight_scale) simp
    have "\<forall>s\<in>set ds. dimension_id s \<in> set (map fst ?ws)"
      using Cons.prems by (simp only: keys_scale) simp
    from Cons.IH [OF this]
    have "multiply_where c f ?ws ds = Inr (scale (\<lambda>k. f ^ occurrences c ds k) ?ws)" .
    also have "scale (\<lambda>k. f ^ occurrences c ds k) ?ws
        = scale (\<lambda>k. (if k = dimension_id s then f else 1) * f ^ occurrences c ds k) ws"
      by (rule scale_scale)
    also have "\<dots> = scale (\<lambda>k. f ^ occurrences c (s # ds) k) ws"
      using True by (intro scale_cong) (auto simp: occurrences_def)
    finally show ?thesis using True m by simp
  qed
qed


lemma scale_one: "scale (\<lambda>k. 1) ws = ws"
  by (induction ws) (auto simp: scale_def)

lemma rule_3_scale:
  assumes "''D3'' \<in> set (map fst ws)" and "''D6'' \<in> set (map fst ws)"
  shows "\<exists>g. apply_rule_3_high_tension ws ds = Inr (scale g ws) \<and> (\<forall>k. 1 \<le> g k \<and> g k \<le> 13 / 10)"
proof -
  let ?g36 = "\<lambda>k. (if k = ''D3'' then ANPASSUNGSFAKTOR_HOCH else 1) * (if k = ''D6'' then ANPASSUNGSFAKTOR_MITTEL else 1)"
  let ?g63 = "\<lambda>k. (if k = ''D6'' then ANPASSUNGSFAKTOR_HOCH else 1) * (if k = ''D3'' then ANPASSUNGSFAKTOR_MITTEL else 1)"
  have a: "(case mul_weight ws ''D3'' ANPASSUNGSFAKTOR_HOCH of Inl e \<Rightarrow> Inl e
            | Inr ws' \<Rightarrow> mul_weight ws' ''D6'' ANPASSUNGSFAKTOR_MITTEL) = Inr (scale ?g36 ws)"
    using assms by (simp add: mul_weight_scale keys_scale scale_scale)
  have b: "(case mul_weight ws ''D6'' ANPASSUNGSFAKTOR_HOCH of Inl e \<Rightarrow> Inl e
            | Inr ws' \<Rightarrow> mul_weight ws' ''D3'' ANPASSUNGSFAKTOR_MITTEL) = Inr (scale ?g63 ws)"
    using assms by (simp add: mul_weight_scale keys_scale scale_scale)
  have ga: "\<forall>k. 1 \<le> ?g36 k \<and> ?g36 k \<le> 13 / 10"
    by (simp add: ANPASSUNGSFAKTOR_HOCH_def ANPASSUNGSFAKTOR_MITTEL_def)
  have gb: "\<forall>k. 1 \<le> ?g63 k \<and> ?g63 k \<le> 13 / 10"
    by (simp add: ANPASSUNGSFAKTOR_HOCH_def ANPASSUNGSFAKTOR_MITTEL_def)
  have gc: "\<forall>k :: string. 1 \<le> (1 :: rat) \<and> (1 :: rat) \<le> 13 / 10" by simp
  have "apply_rule_3_high_tension ws ds = Inr (scale ?g36 ws)
      \<or> apply_rule_3_high_tension ws ds = Inr (scale ?g63 ws)
      \<or> apply_rule_3_high_tension ws ds = Inr ws"
    unfolding apply_rule_3_high_tension_def Let_def a b
    by (simp split: option.split)
  then consider (hoch36) "apply_rule_3_high_tension ws ds = Inr (scale ?g36 ws)"
    | (hoch63) "apply_rule_3_high_tension ws ds = Inr (scale ?g63 ws)"
    | (none) "apply_rule_3_high_tension ws ds = Inr ws"
    by blast
  then show ?thesis
  proof cases
    case hoch36
    with ga show ?thesis by blast
  next
    case hoch63
    with gb show ?thesis by blast
  next
    case none
    then have "apply_rule_3_high_tension ws ds = Inr (scale (\<lambda>k. 1) ws)" by (simp add: scale_one)
    with gc show ?thesis by blast
  qed
qed

lemma rule_4_scale:
  assumes "''D1'' \<in> set (map fst ws)" and "''D2'' \<in> set (map fst ws)" and "''D7'' \<in> set (map fst ws)"
  shows "\<exists>g. apply_rule_4_context ws c = Inr (scale g ws) \<and> (\<forall>k. 1 \<le> g k \<and> g k \<le> 12 / 10)"
proof -
  let ?g7 = "\<lambda>k. if k = ''D7'' then ANPASSUNGSFAKTOR else 1"
  let ?g12 = "\<lambda>k. (if k = ''D1'' then ANPASSUNGSFAKTOR else 1) * (if k = ''D2'' then ANPASSUNGSFAKTOR else 1)"
  have a: "mul_weight ws ''D7'' ANPASSUNGSFAKTOR = Inr (scale ?g7 ws)"
    using assms by (simp add: mul_weight_scale)
  have b: "(case mul_weight ws ''D1'' ANPASSUNGSFAKTOR of Inl e \<Rightarrow> Inl e
            | Inr ws' \<Rightarrow> mul_weight ws' ''D2'' ANPASSUNGSFAKTOR) = Inr (scale ?g12 ws)"
    using assms by (simp add: mul_weight_scale keys_scale scale_scale)
  have ga: "\<forall>k. 1 \<le> ?g7 k \<and> ?g7 k \<le> 12 / 10" by (simp add: ANPASSUNGSFAKTOR_def)
  have gb: "\<forall>k. 1 \<le> ?g12 k \<and> ?g12 k \<le> 12 / 10" by (simp add: ANPASSUNGSFAKTOR_def)
  have gc: "\<forall>k :: string. 1 \<le> (1 :: rat) \<and> (1 :: rat) \<le> 12 / 10" by simp
  have "apply_rule_4_context ws c = Inr (scale ?g7 ws)
      \<or> apply_rule_4_context ws c = Inr (scale ?g12 ws)
      \<or> apply_rule_4_context ws c = Inr ws"
    unfolding apply_rule_4_context_def a b by simp
  then consider (low) "apply_rule_4_context ws c = Inr (scale ?g7 ws)"
    | (high) "apply_rule_4_context ws c = Inr (scale ?g12 ws)"
    | (none) "apply_rule_4_context ws c = Inr ws"
    by blast
  then show ?thesis
  proof cases
    case low
    with ga show ?thesis by blast
  next
    case high
    with gb show ?thesis by blast
  next
    case none
    then have "apply_rule_4_context ws c = Inr (scale (\<lambda>k. 1) ws)" by (simp add: scale_one)
    with gc show ?thesis by blast
  qed
qed

lemma rule_6_scale: "apply_rule_6_archetyp ws a = scale (archetyp_factor a) ws"
  by (induction ws) (auto simp: apply_rule_6_archetyp_def scale_def archetyp_factor_def Let_def split: option.splits)

lemma archetyp_factor_bounds: "7 / 10 \<le> archetyp_factor a k \<and> archetyp_factor a k \<le> 15 / 10"
  by (cases a) (simp_all add: archetyp_factor_def dimension_ids_def)


lemma keys_base: "map fst (load_base_weights kmu) = dimension_ids"
  by (simp add: load_base_weights_def dimension_ids_def)

lemma rules_1_to_6:
  assumes ids: "\<forall>s\<in>set ds. dimension_id s \<in> set dimension_ids"
  shows "\<exists>g3 g4. (\<forall>k. 1 \<le> g3 k \<and> g3 k \<le> 13 / 10) \<and> (\<forall>k. 1 \<le> g4 k \<and> g4 k \<le> 12 / 10)
    \<and> calculate_dynamic_weights_root ds c a kmu =
        normalize_weights (apply_minimum_security (scale
          (\<lambda>k. ANPASSUNGSFAKTOR ^ occurrences tight ds k
               * ANPASSUNGSFAKTOR ^ occurrences (\<lambda>s. \<not> tight s) ds k
               * g3 k * g4 k
               * ANPASSUNGSFAKTOR_DAEMPFUNG ^ occurrences (above_average ds) ds k
               * archetyp_factor a k)
          (load_base_weights kmu)))"
proof -
  define base where "base = load_base_weights kmu"
  have kb: "map fst base = dimension_ids" by (simp add: base_def keys_base)
  define w1 where "w1 = scale (\<lambda>k. ANPASSUNGSFAKTOR ^ occurrences tight ds k) base"
  define w2 where "w2 = scale (\<lambda>k. ANPASSUNGSFAKTOR ^ occurrences (\<lambda>s. \<not> tight s) ds k) w1"
  have k1: "map fst w1 = dimension_ids" by (simp add: w1_def keys_scale kb)
  have k2: "map fst w2 = dimension_ids" by (simp add: w2_def keys_scale k1)
  have r1: "apply_rule_1_tight_gaps base ds = Inr w1"
    unfolding apply_rule_1_tight_gaps_def w1_def tight_def [abs_def]
    by (rule multiply_where_scale) (simp add: kb ids)
  have r2: "apply_rule_2_large_gaps w1 ds = Inr w2"
    unfolding apply_rule_2_large_gaps_def w2_def tight_def [abs_def] not_le
    by (rule multiply_where_scale) (simp add: k1 ids)
  obtain g3 where r3: "apply_rule_3_high_tension w2 ds = Inr (scale g3 w2)"
    and b3: "\<forall>k. 1 \<le> g3 k \<and> g3 k \<le> 13 / 10"
    using rule_3_scale [of w2 ds] by (auto simp: k2 dimension_ids_def)
  define w3 where "w3 = scale g3 w2"
  have k3: "map fst w3 = dimension_ids" by (simp add: w3_def keys_scale k2)
  obtain g4 where r4: "apply_rule_4_context w3 c = Inr (scale g4 w3)"
    and b4: "\<forall>k. 1 \<le> g4 k \<and> g4 k \<le> 12 / 10"
    using rule_4_scale [of w3 c] by (auto simp: k3 dimension_ids_def)
  define w4 where "w4 = scale g4 w3"
  have k4: "map fst w4 = dimension_ids" by (simp add: w4_def keys_scale k3)
  define w5 where "w5 = scale (\<lambda>k. ANPASSUNGSFAKTOR_DAEMPFUNG ^ occurrences (above_average ds) ds k) w4"
  have r5: "apply_rule_5_above_average w4 ds = Inr w5"
    unfolding apply_rule_5_above_average_def w5_def above_average_def [abs_def]
    by (rule multiply_where_scale) (simp add: k4 ids)
  have "calculate_dynamic_weights_root ds c a kmu
      = normalize_weights (apply_minimum_security (scale (archetyp_factor a) w5))"
    using r1 r2 r3 r4 r5
    by (simp add: calculate_dynamic_weights_root_def base_def [symmetric] w3_def [symmetric]
        w4_def [symmetric] rule_6_scale)
  also have "scale (archetyp_factor a) w5 = scale
          (\<lambda>k. ANPASSUNGSFAKTOR ^ occurrences tight ds k
               * ANPASSUNGSFAKTOR ^ occurrences (\<lambda>s. \<not> tight s) ds k
               * g3 k * g4 k
               * ANPASSUNGSFAKTOR_DAEMPFUNG ^ occurrences (above_average ds) ds k
               * archetyp_factor a k) base"
    unfolding w5_def w4_def w3_def w2_def w1_def by (simp only: scale_scale)
  finally show ?thesis using b3 b4 unfolding base_def by blast
qed


lemma occurrences_split:
  "occurrences c ds k + occurrences (\<lambda>s. \<not> c s) ds k = occurrences everyone ds k"
  by (induction ds) (auto simp: occurrences_def everyone_def)

lemma occurrences_le: "occurrences c ds k \<le> occurrences everyone ds k"
  by (induction ds) (auto simp: occurrences_def everyone_def)

lemma occurrences_le_length: "occurrences c ds k \<le> length ds"
  by (simp add: occurrences_def)

lemma occurrences_total:
  assumes "distinct ks" and "\<forall>s\<in>set ds. dimension_id s \<in> set ks"
  shows "(\<Sum>k\<leftarrow>ks. occurrences everyone ds k) = length ds"
  using assms(2)
proof (induction ds)
  case Nil
  show ?case by (simp add: occurrences_def)
next
  case (Cons s ds)
  have one: "(\<Sum>k\<leftarrow>ks. if dimension_id s = k then 1 else 0) = (1 :: nat)"
    using Cons.prems assms(1) by (simp add: sum_list_distinct_conv_sum_set)
  have "(\<Sum>k\<leftarrow>ks. occurrences everyone (s # ds) k)
      = (\<Sum>k\<leftarrow>ks. (if dimension_id s = k then 1 else 0) + occurrences everyone ds k)"
    by (intro arg_cong [where f = sum_list] map_cong) (auto simp: occurrences_def everyone_def)
  also have "\<dots> = (\<Sum>k\<leftarrow>ks. if dimension_id s = k then 1 else 0) + (\<Sum>k\<leftarrow>ks. occurrences everyone ds k)"
    by (simp add: sum_list_addf)
  finally show ?case using one Cons by simp
qed

lemma power_chord: "n \<le> 8 \<Longrightarrow> (12 / 10 :: rat) ^ n \<le> 1 + 42 / 100 * of_nat n"
proof -
  assume "n \<le> 8"
  then have "n \<in> {0, 1, 2, 3, 4, 5, 6, 7, 8}" by auto
  then show ?thesis by (auto simp: power_numeral_reduce)
qed

lemma factor_product_bounds:
  fixes g3 g4 g6 :: rat
  assumes sum: "a + b = n" and c: "c \<le> n" and n: "n \<le> 8"
    and g3: "1 \<le> g3" "g3 \<le> 13 / 10" and g4: "1 \<le> g4" "g4 \<le> 12 / 10"
    and g6: "7 / 10 \<le> g6" "g6 \<le> 15 / 10"
  shows "(96 / 100) ^ 8 * (7 / 10) \<le> (12 / 10) ^ a * (12 / 10) ^ b * g3 * g4 * (8 / 10) ^ c * g6"
    and "(12 / 10) ^ a * (12 / 10) ^ b * g3 * g4 * (8 / 10) ^ c * g6 \<le> 234 / 100 * (1 + 42 / 100 * of_nat n)"
proof -
  let ?x = "(12 / 10 :: rat) ^ n" and ?y = "(8 / 10 :: rat) ^ c"
  have ab: "(12 / 10 :: rat) ^ a * (12 / 10) ^ b = ?x" using sum by (simp add: power_add [symmetric])
  have x1: "1 \<le> ?x" by (rule one_le_power) simp
  have y1: "?y \<le> 1" by (rule power_le_one) simp_all
  have y0: "0 < ?y" by simp
  have yn: "(8 / 10 :: rat) ^ n \<le> ?y" using c by (intro power_decreasing) simp_all
  have "(96 / 100 :: rat) ^ 8 \<le> (96 / 100) ^ n" using n by (intro power_decreasing) simp_all
  also have "(96 / 100 :: rat) ^ n = ?x * (8 / 10) ^ n"
    by (simp add: power_mult_distrib [symmetric])
  also have "\<dots> \<le> ?x * ?y" using x1 yn by (intro mult_left_mono) simp_all
  finally have xy: "(96 / 100 :: rat) ^ 8 \<le> ?x * ?y" .
  have p0: "0 \<le> ?x * ?y" by simp
  have g34: "1 * 1 \<le> g3 * g4" by (rule mult_mono [OF g3(1) g4(1)]) (use g3 in simp_all)
  then have g34': "1 \<le> g3 * g4" by simp
  have s1: "(96 / 100) ^ 8 * 1 \<le> (?x * ?y) * (g3 * g4)"
    by (rule mult_mono [OF xy g34']) (use p0 in simp_all)
  have p1: "0 \<le> (?x * ?y) * (g3 * g4)"
  proof (rule mult_nonneg_nonneg [OF p0])
    show "0 \<le> g3 * g4" using g34' by linarith
  qed
  have s2: "(96 / 100) ^ 8 * 1 * (7 / 10) \<le> (?x * ?y) * (g3 * g4) * g6"
    by (rule mult_mono [OF s1 g6(1)]) (use p1 in simp_all)
  have "(?x * ?y) * (g3 * g4) * g6 = (12 / 10) ^ a * (12 / 10) ^ b * g3 * g4 * (8 / 10) ^ c * g6"
    by (simp only: ab mult_ac)
  with s2 show "(96 / 100) ^ 8 * (7 / 10) \<le> (12 / 10) ^ a * (12 / 10) ^ b * g3 * g4 * (8 / 10) ^ c * g6"
    by (simp only: mult_1_right)
  have u1: "g3 * g4 \<le> 13 / 10 * (12 / 10)"
    by (rule mult_mono [OF g3(2) g4(2)]) (use g4 in simp_all)
  have p2: "0 \<le> g3 * g4" using g34' by linarith
  have u2: "g3 * g4 * g6 \<le> 13 / 10 * (12 / 10) * (15 / 10)"
    by (rule mult_mono [OF u1 g6(2)]) (use g6 in simp_all)
  have p3: "0 \<le> g3 * g4 * g6"
  proof (rule mult_nonneg_nonneg [OF p2])
    show "0 \<le> g6" using g6(1) by simp
  qed
  have u3: "?x * ?y \<le> ?x * 1" using y1 x1 by (intro mult_left_mono) simp_all
  have u4: "(?x * ?y) * (g3 * g4 * g6) \<le> (?x * 1) * (13 / 10 * (12 / 10) * (15 / 10))"
    by (rule mult_mono [OF u3 u2]) (use p3 in simp_all)
  also have "\<dots> \<le> (1 + 42 / 100 * of_nat n) * (13 / 10 * (12 / 10) * (15 / 10))"
    using power_chord [OF n] by (intro mult_right_mono) simp_all
  also have "\<dots> = 234 / 100 * (1 + 42 / 100 * of_nat n)" by simp
  finally have "(?x * ?y) * (g3 * g4 * g6) \<le> 234 / 100 * (1 + 42 / 100 * of_nat n)" .
  moreover have "(?x * ?y) * (g3 * g4 * g6) = (12 / 10) ^ a * (12 / 10) ^ b * g3 * g4 * (8 / 10) ^ c * g6"
    by (simp only: ab mult_ac)
  ultimately show "(12 / 10) ^ a * (12 / 10) ^ b * g3 * g4 * (8 / 10) ^ c * g6 \<le> 234 / 100 * (1 + 42 / 100 * of_nat n)"
    by (simp only:)
qed

lemma base_bounds: "x \<in> set (load_base_weights kmu) \<Longrightarrow> 10 / 100 \<le> snd x \<and> snd x \<le> 15 / 100"
  by (cases kmu) (auto simp: load_base_weights_def dimension_ids_def)

lemma values_scale_ge:
  assumes "\<forall>x\<in>set ws. b \<le> snd x" and "0 \<le> b" and "\<forall>k. l \<le> g k" and "0 \<le> l"
  shows "\<forall>w\<in>set (map snd (scale g ws)). b * l \<le> w"
proof
  fix w assume "w \<in> set (map snd (scale g ws))"
  then obtain k v where kv: "(k, v) \<in> set ws" and w: "w = v * g k" by (auto simp: scale_def)
  from kv assms(1) have "b \<le> v" by auto
  moreover from assms(3) have "l \<le> g k" by simp
  ultimately have "b * l \<le> v * g k" using assms(2,4) by (intro mult_mono) simp_all
  with w show "b * l \<le> w" by simp
qed

lemma sum_scale_le:
  assumes "\<forall>x\<in>set ws. 0 \<le> snd x \<and> snd x \<le> B" and "\<forall>k. 0 \<le> g k \<and> g k \<le> h k"
  shows "sum_list (map snd (scale g ws)) \<le> B * sum_list (map h (map fst ws))"
  using assms(1)
proof (induction ws)
  case Nil
  show ?case by (simp add: scale_def)
next
  case (Cons x ws)
  obtain k v where x: "x = (k, v)" by (cases x)
  from Cons.prems x have v: "0 \<le> v" "v \<le> B" by auto
  from assms(2) have g: "0 \<le> g k" "g k \<le> h k" by auto
  have "v * g k \<le> B * h k" using v g by (intro mult_mono) auto
  moreover have "sum_list (map snd (scale g ws)) \<le> B * sum_list (map h (map fst ws))"
    using Cons by simp
  ultimately show ?case by (simp add: x scale_def algebra_simps)
qed

lemma sum_affine:
  "sum_list (map (\<lambda>k. c1 * (1 + c2 * of_nat (n k))) ks)
     = c1 * (of_nat (length ks) + c2 * of_nat (sum_list (map n ks)) :: rat)"
  by (induction ks) (auto simp: algebra_simps)

lemma sum_list_bounded_below:
  "\<forall>x\<in>set xs. (c :: rat) \<le> f x \<Longrightarrow> of_nat (length xs) * c \<le> sum_list (map f xs)"
  by (induction xs) (auto simp: algebra_simps)

lemma minimum_security_idle:
  "\<forall>w\<in>set (map snd ws). MINIMUM_GEWICHT \<le> w \<Longrightarrow> apply_minimum_security ws = ws"
  by (induction ws) (auto simp: apply_minimum_security_def)

lemma weights_before_normalization:
  fixes a :: Archetyp and g3 g4 :: "string \<Rightarrow> rat" and ds :: "DimensionScore list"
  assumes len: "length ds = 8"
    and ids: "\<forall>s\<in>set ds. dimension_id s \<in> set dimension_ids"
    and b3: "\<forall>k. 1 \<le> g3 k \<and> g3 k \<le> 13 / 10"
    and b4: "\<forall>k. 1 \<le> g4 k \<and> g4 k \<le> 12 / 10"
  defines "G \<equiv> \<lambda>k. ANPASSUNGSFAKTOR ^ occurrences tight ds k
               * ANPASSUNGSFAKTOR ^ occurrences (\<lambda>s. \<not> tight s) ds k
               * g3 k * g4 k
               * ANPASSUNGSFAKTOR_DAEMPFUNG ^ occurrences (above_average ds) ds k
               * archetyp_factor a k"
  shows "\<forall>w\<in>set (map snd (scale G (load_base_weights kmu))). 10 / 100 * ((96 / 100) ^ 8 * (7 / 10)) \<le> w"
    and "sum_list (map snd (scale G (load_base_weights kmu)))
           \<le> 15 / 100 * (234 / 100 * (8 + 42 / 100 * 8))"
proof -
  let ?n = "occurrences everyone ds"
  let ?h = "\<lambda>k. 234 / 100 * (1 + 42 / 100 * of_nat (?n k)) :: rat"
  have bounds: "(96 / 100) ^ 8 * (7 / 10) \<le> G k \<and> G k \<le> ?h k" for k
  proof -
    have "occurrences tight ds k + occurrences (\<lambda>s. \<not> tight s) ds k = ?n k"
      by (rule occurrences_split)
    moreover have "occurrences (above_average ds) ds k \<le> ?n k" by (rule occurrences_le)
    moreover have "?n k \<le> 8" using occurrences_le_length [of everyone ds k] len by simp
    ultimately show ?thesis
      unfolding G_def ANPASSUNGSFAKTOR_def ANPASSUNGSFAKTOR_DAEMPFUNG_def
      using b3 b4 archetyp_factor_bounds [of a k]
      by (intro conjI factor_product_bounds) auto
  qed
  have low: "\<forall>k. (96 / 100) ^ 8 * (7 / 10) \<le> G k" using bounds by blast
  have "\<forall>x\<in>set (load_base_weights kmu). 10 / 100 \<le> snd x" using base_bounds by blast
  then show "\<forall>w\<in>set (map snd (scale G (load_base_weights kmu))). 10 / 100 * ((96 / 100) ^ 8 * (7 / 10)) \<le> w"
    using low by (intro values_scale_ge) simp_all
  have nonneg: "0 \<le> G k" for k
  proof -
    have "(0 :: rat) \<le> (96 / 100) ^ 8 * (7 / 10)" by simp
    with bounds [of k] show ?thesis by linarith
  qed
  have "\<forall>x\<in>set (load_base_weights kmu). 0 \<le> snd x \<and> snd x \<le> 15 / 100"
  proof
    fix x assume "x \<in> set (load_base_weights kmu)"
    from base_bounds [OF this] show "0 \<le> snd x \<and> snd x \<le> 15 / 100" by simp
  qed
  moreover have "\<forall>k. 0 \<le> G k \<and> G k \<le> ?h k" using nonneg bounds by blast
  ultimately have "sum_list (map snd (scale G (load_base_weights kmu)))
      \<le> 15 / 100 * sum_list (map ?h (map fst (load_base_weights kmu)))"
    by (rule sum_scale_le)
  also have "sum_list (map ?h (map fst (load_base_weights kmu)))
      = 234 / 100 * (of_nat (length dimension_ids) + 42 / 100 * of_nat (sum_list (map ?n dimension_ids)))"
    by (simp only: keys_base sum_affine)
  also have "sum_list (map ?n dimension_ids) = length ds"
  proof (rule occurrences_total)
    show "distinct dimension_ids" by (simp add: dimension_ids_def)
    show "\<forall>s\<in>set ds. dimension_id s \<in> set dimension_ids" by (rule ids)
  qed
  finally show "sum_list (map snd (scale G (load_base_weights kmu)))
           \<le> 15 / 100 * (234 / 100 * (8 + 42 / 100 * 8))"
    using len by (simp add: dimension_ids_def)
qed

lemma quantize3_ge: "0 \<le> w \<Longrightarrow> w - 1 / 2000 \<le> quantize3 w"
proof -
  assume "0 \<le> w"
  have "w * 1000 + 1 / 2 < of_int \<lfloor>w * 1000 + 1 / 2\<rfloor> + 1" by linarith
  then have "w * 1000 - 1 / 2 \<le> of_int \<lfloor>w * 1000 + 1 / 2\<rfloor>" by linarith
  with \<open>0 \<le> w\<close> show ?thesis by (simp add: quantize3_def round_half_up_def field_simps)
qed

lemma corrected_weights_floor_and_sum:
  assumes keys: "map fst ns = dimension_ids"
    and floor: "\<forall>w\<in>set (map snd ns). 1 / 79 \<le> w"
    and total: "sum_list (map snd ns) = 1"
  shows "\<exists>ws. round_and_correct ns = Inr ws \<and> map fst ws = dimension_ids
      \<and> \<bar>sum_list (map snd ws) - 1\<bar> \<le> 1 / 1000 \<and> (\<forall>w\<in>set (map snd ws). 1 / 100 \<le> w)"
proof -
  define r where "r = map (\<lambda>(k, w). (k, fl (quantize3 w))) ns"
  define d where "d = fl (1 - fsum (map snd r))"
  define u :: rat where "u = 1 / 2 ^ 53"
  define T where "T = sum_list (map snd r)"
  define S where "S = fsum (map snd r)"
  have u: "0 \<le> u" "u \<le> 1 / 1000000000" by (simp_all add: u_def)
  have "length (map fst ns) = length dimension_ids" by (simp only: keys)
  then have len: "length ns = 8" by (simp add: dimension_ids_def)
  have dist: "distinct (map fst ns)" by (simp add: keys dimension_ids_def)
  have ne: "ns \<noteq> []" using len by auto
  have rkeys: "map fst r = dimension_ids" unfolding r_def by (simp only: keys_map_values keys)
  have rvals: "map snd r = map (\<lambda>w. fl (quantize3 w)) (map snd ns)" unfolding r_def by (rule values_map_values)
  have rlen: "length r = 8" unfolding r_def using len by simp
  have nonneg: "\<forall>w\<in>set (map snd ns). 0 \<le> w"
  proof
    fix w assume "w \<in> set (map snd ns)"
    with floor have "1 / 79 \<le> w" by blast
    then show "0 \<le> w" by simp
  qed
  have nl: "length (map snd ns) \<le> 1000" using len by simp
  note b = rounded_values_bounds [OF nonneg total nl, folded rvals]
  have r0: "\<forall>x\<in>set (map snd r). 0 \<le> x" using b(1) by blast
  have rl: "length (map snd r) \<le> 1000" using rlen by simp
  have rfloor: "\<forall>w\<in>set (map snd r). 1 / 100 \<le> w"
  proof
    fix w assume "w \<in> set (map snd r)"
    then have "w \<in> (\<lambda>w. fl (quantize3 w)) ` set (map snd ns)" by (simp only: rvals set_map)
    then obtain x where x: "x \<in> set (map snd ns)" and w: "w = fl (quantize3 x)" by blast
    from x floor have x79: "1 / 79 \<le> x" by blast
    then have "0 \<le> x" by simp
    from quantize3_ge [OF this] x79 have q: "12 / 1000 \<le> quantize3 x" by simp
    then have q0: "0 \<le> quantize3 x" by simp
    have "12 / 1000 * (1 - u) \<le> quantize3 x * (1 - u)" using q u by (intro mult_right_mono) simp_all
    also have "\<dots> \<le> fl (quantize3 x)" unfolding u_def by (rule fl_lower [OF q0])
    finally show "1 / 100 \<le> w" using u by (simp add: w)
  qed
  have q0: "\<forall>x\<in>set (map quantize3 (map snd ns)). 0 \<le> x" using nonneg by (auto simp: quantize3_nonneg)
  have "T = sum_list (map fl (map quantize3 (map snd ns)))" by (simp add: T_def rvals o_def)
  also have "\<dots> \<le> sum_list (map quantize3 (map snd ns)) * (1 + u)"
    unfolding u_def by (rule sum_list_fl_upper [OF q0])
  also have "\<dots> \<le> (sum_list (map snd ns) + of_nat (length (map snd ns)) * (1 / 2000)) * (1 + u)"
    using u by (intro mult_right_mono sum_list_quantize3) simp
  also have "\<dots> = (1 + 8 / 2000) * (1 + u)" using total len by simp
  also have "\<dots> \<le> 1005 / 1000" using u by simp
  finally have T1: "T \<le> 1005 / 1000" .
  have e1: "\<bar>S - T\<bar> \<le> 3200 * u"
    using fsum_error [OF r0 rl b(2)] by (simp add: S_def T_def u_def)
  have e2: "\<bar>d - (1 - S)\<bar> \<le> 3 * u"
    using correction_error(1) [OF r0 rl b(2), of 0] by (simp add: d_def S_def u_def)
  from round_and_correct_cases [OF dist ne]
  have cases: "if \<bar>d\<bar> > fl (1 / 10000) then
              \<exists>pre g v post. r = pre @ (g, v) # post
                \<and> (\<forall>x\<in>set pre. snd x < v) \<and> (\<forall>x\<in>set post. snd x \<le> v)
                \<and> round_and_correct ns = Inr (pre @ (g, fl (v + d)) # post)
            else round_and_correct ns = Inr r"
    unfolding d_def r_def by (simp only: Let_def)
  show ?thesis
  proof (cases "\<bar>d\<bar> > fl (1 / 10000)")
    case False
    with cases have "round_and_correct ns = Inr r" by simp
    moreover have "\<bar>sum_list (map snd r) - 1\<bar> \<le> 1 / 1000"
    proof -
      have "fl (1 / 10000) \<le> 1 / 10000 * (1 + u)" unfolding u_def by (rule fl_upper) simp
      with False have "\<bar>d\<bar> \<le> 1 / 10000 * (1 + u)" by linarith
      then have "\<bar>d\<bar> \<le> 1 / 10000 + u" using u by (simp add: algebra_simps)
      with e1 e2 u have "\<bar>T - 1\<bar> \<le> 1 / 1000" by linarith
      then show ?thesis by (simp only: T_def)
    qed
    ultimately show ?thesis using rkeys rfloor by blast
  next
    case True
    with cases obtain pre g v post where
      split: "r = pre @ (g, v) # post"
      and pre: "\<forall>x\<in>set pre. snd x < v" and post: "\<forall>x\<in>set post. snd x \<le> v"
      and rc: "round_and_correct ns = Inr (pre @ (g, fl (v + d)) # post)"
      by auto
    have vals: "map snd r = map snd pre @ v # map snd post" by (simp add: split)
    have v: "0 \<le> v" "v \<le> 11 / 10" using b(1) unfolding vals by simp_all
    have k: "map fst (pre @ (g, fl (v + d)) # post) = dimension_ids"
    proof -
      have "map fst (pre @ (g, fl (v + d)) # post) = map fst (pre @ (g, v) # post)" by simp
      then show ?thesis using rkeys split by simp
    qed
    have "\<bar>sum_list (map snd pre @ fl (v + fl (1 - fsum (map snd pre @ v # map snd post))) # map snd post) - 1\<bar>
        \<le> 1 / 10 ^ 12"
    proof (rule corrected_sum)
      show "\<forall>x\<in>set (map snd pre @ v # map snd post). 0 \<le> x" using r0 unfolding vals .
      show "length (map snd pre @ v # map snd post) \<le> 1000" using rl unfolding vals .
      show "sum_list (map snd pre @ v # map snd post) \<le> 16 / 10" using b(2) unfolding vals .
      show "v \<le> 11 / 10" by (rule v(2))
    qed
    then have "\<bar>sum_list (map snd (pre @ (g, fl (v + d)) # post)) - 1\<bar> \<le> 1 / 10 ^ 12"
      unfolding d_def vals by simp
    then have one: "\<bar>sum_list (map snd (pre @ (g, fl (v + d)) # post)) - 1\<bar> \<le> 1 / 1000" by simp
    have e3: "\<bar>fl (v + d) - (v + d)\<bar> \<le> 5 * u"
      using correction_error(2) [OF r0 rl b(2) v] by (simp add: d_def u_def)
    have "\<forall>x\<in>set r. snd x \<le> v" using pre post by (subst split) auto
    then have "sum_list (map snd r) \<le> of_nat (length r) * v" by (rule sum_list_bounded_above)
    then have "T \<le> 8 * v" using rlen by (simp add: T_def)
    with T1 e1 e2 e3 u have vd: "1 / 100 \<le> fl (v + d)" by linarith
    have inr: "set pre \<union> set post \<subseteq> set r" by (subst split) auto
    have "\<forall>w\<in>set (map snd (pre @ (g, fl (v + d)) # post)). 1 / 100 \<le> w"
    proof
      fix w assume "w \<in> set (map snd (pre @ (g, fl (v + d)) # post))"
      then consider "w = fl (v + d)" | "w \<in> snd ` (set pre \<union> set post)" by auto
      then show "1 / 100 \<le> w"
      proof cases
        case 1
        with vd show ?thesis by simp
      next
        case 2
        with inr have "w \<in> set (map snd r)" by auto
        with rfloor show ?thesis by blast
      qed
    qed
    with rc k one show ?thesis by blast
  qed
qed

lemma normalize_floor_and_sum:
  assumes keys: "map fst W = dimension_ids"
    and low: "\<forall>w\<in>set (map snd W). l \<le> w"
    and up: "sum_list (map snd W) \<le> 79 * l"
    and l: "0 < l"
  shows "\<exists>ws. normalize_weights W = Inr ws \<and> map fst ws = dimension_ids
      \<and> \<bar>sum_list (map snd ws) - 1\<bar> \<le> 1 / 1000 \<and> (\<forall>w\<in>set (map snd ws). 1 / 100 \<le> w)"
proof -
  define S where "S = sum_list (map snd W)"
  define ns where "ns = map (\<lambda>(k, w). (k, w / S)) W"
  have "length (map fst W) = length dimension_ids" by (simp only: keys)
  then have len: "length W = 8" by (simp add: dimension_ids_def)
  have "of_nat (length (map snd W)) * l \<le> sum_list (map (\<lambda>w. w) (map snd W))"
    by (rule sum_list_bounded_below) (use low in simp)
  then have "8 * l \<le> S" using len by (simp add: S_def)
  with l have S: "0 < S" by linarith
  have nkeys: "map fst ns = dimension_ids" unfolding ns_def by (simp only: keys_map_values keys)
  have nvals: "map snd ns = map (\<lambda>w. w / S) (map snd W)" unfolding ns_def by (rule values_map_values)
  have nfloor: "\<forall>w\<in>set (map snd ns). 1 / 79 \<le> w"
  proof
    fix w assume "w \<in> set (map snd ns)"
    then have "w \<in> (\<lambda>w. w / S) ` set (map snd W)" by (simp only: nvals set_map)
    then obtain x where x: "x \<in> set (map snd W)" and w: "w = x / S" by blast
    from x low have "l \<le> x" by blast
    with up have "S \<le> 79 * x" unfolding S_def by linarith
    with S show "1 / 79 \<le> w" unfolding w by (simp add: field_simps)
  qed
  have ntotal: "sum_list (map snd ns) = 1"
    unfolding ns_def sum_list_divide_const using S by (simp add: S_def)
  have "normalize_weights W = round_and_correct ns"
    using S by (simp add: normalize_weights_def Let_def ns_def S_def)
  with corrected_weights_floor_and_sum [OF nkeys nfloor ntotal] show ?thesis by simp
qed

text \<open>
  Claim C1. For every input of the root engine's \<open>calculate_dynamic_weights\<close>, that is
  any eight dimension scores (each carrying one of the ids D1 to D8, whatever their
  values and in any order or multiplicity), any context score, any archetype and either
  value of the KMU flag, the call returns eight weights, one per dimension, that sum to 1
  within 0.001 and are each at least 0.01.
\<close>

theorem dynamic_weights_sum_and_floor:
  assumes "length dimension_scores = 8"
    and "\<forall>s\<in>set dimension_scores. dimension_id s \<in> set dimension_ids"
  shows "\<exists>ws. calculate_dynamic_weights_root dimension_scores cscore archetyp is_kmu = Inr ws
      \<and> map fst ws = dimension_ids
      \<and> \<bar>sum_list (map snd ws) - 1\<bar> \<le> 1 / 1000
      \<and> (\<forall>w\<in>set (map snd ws). 1 / 100 \<le> w)"
proof -
  from rules_1_to_6 [OF assms(2), of cscore archetyp is_kmu] obtain g3 g4 where
    b3: "\<forall>k. 1 \<le> g3 k \<and> g3 k \<le> 13 / 10" and b4: "\<forall>k. 1 \<le> g4 k \<and> g4 k \<le> 12 / 10"
    and eq: "calculate_dynamic_weights_root dimension_scores cscore archetyp is_kmu =
        normalize_weights (apply_minimum_security (scale
          (\<lambda>k. ANPASSUNGSFAKTOR ^ occurrences tight dimension_scores k
               * ANPASSUNGSFAKTOR ^ occurrences (\<lambda>s. \<not> tight s) dimension_scores k
               * g3 k * g4 k
               * ANPASSUNGSFAKTOR_DAEMPFUNG ^ occurrences (above_average dimension_scores) dimension_scores k
               * archetyp_factor archetyp k)
          (load_base_weights is_kmu)))"
    by blast
  define W where "W = scale
          (\<lambda>k. ANPASSUNGSFAKTOR ^ occurrences tight dimension_scores k
               * ANPASSUNGSFAKTOR ^ occurrences (\<lambda>s. \<not> tight s) dimension_scores k
               * g3 k * g4 k
               * ANPASSUNGSFAKTOR_DAEMPFUNG ^ occurrences (above_average dimension_scores) dimension_scores k
               * archetyp_factor archetyp k)
          (load_base_weights is_kmu)"
  define l :: rat where "l = 10 / 100 * ((96 / 100) ^ 8 * (7 / 10))"
  have low: "\<forall>w\<in>set (map snd W). l \<le> w"
    unfolding W_def l_def by (rule weights_before_normalization(1) [OF assms b3 b4])
  have "sum_list (map snd W) \<le> 15 / 100 * (234 / 100 * (8 + 42 / 100 * 8))"
    unfolding W_def by (rule weights_before_normalization(2) [OF assms b3 b4])
  moreover have "15 / 100 * (234 / 100 * (8 + 42 / 100 * 8)) \<le> 79 * l"
    by (simp add: l_def power_numeral_reduce)
  ultimately have up: "sum_list (map snd W) \<le> 79 * l" by linarith
  have l: "0 < l" and l100: "MINIMUM_GEWICHT \<le> l"
    by (simp_all add: l_def MINIMUM_GEWICHT_def power_numeral_reduce)
  have keys: "map fst W = dimension_ids" unfolding W_def by (simp only: keys_scale keys_base)
  have "\<forall>w\<in>set (map snd W). MINIMUM_GEWICHT \<le> w" using low l100 by force
  then have "apply_minimum_security W = W" by (rule minimum_security_idle)
  then have "calculate_dynamic_weights_root dimension_scores cscore archetyp is_kmu = normalize_weights W"
    unfolding eq W_def by simp
  with normalize_floor_and_sum [OF keys low up l] show ?thesis by simp
qed

theorem dynamic_weights_sum_and_floor_witness:
  "length sample_dimension_scores = 8
   \<and> list_all (\<lambda>s. dimension_id s \<in> set dimension_ids) sample_dimension_scores
   \<and> (\<exists>ws. calculate_dynamic_weights_root sample_dimension_scores (625 / 1000) CHAOTIC_DOER False = Inr ws
        \<and> map fst ws = dimension_ids
        \<and> \<bar>sum_list (map snd ws) - 1\<bar> \<le> 1 / 1000
        \<and> list_all (\<lambda>w. 1 / 100 \<le> w) (map snd ws))"
  using dynamic_weights_sum_and_floor [of sample_dimension_scores "625 / 1000" CHAOTIC_DOER False]
  by (simp add: sample_dimension_scores_def dimension_ids_def list_all_iff)

section \<open>Rule 5 and the critical tension\<close>

text \<open>
  The check for a critical tension always answers no, so rule 5 multiplies by 0.8 exactly
  when the current value is above 3.5 and not below the target.
\<close>

lemma rule_5_condition:
  "apply_rule_5_above_average ws ds
     = multiply_where (\<lambda>score. ist_value score > 35 / 10 \<and> ist_value score \<ge> soll_value score)
         (8 / 10) ws ds"
  by (simp add: apply_rule_5_above_average_def is_in_critical_tension_def SCHWELLENWERT_IST_def
      ANPASSUNGSFAKTOR_DAEMPFUNG_def)

text \<open>
  Claim C6 says that a dimension above 3.5 and at or above its target keeps its weight
  under rule 5 when it takes part in a tension pair of intensity above 3.0. In the scores
  below D6 is such a dimension: its tension with D3 is 4.0, rule 3 reacts to it, and
  rule 5 still multiplies the weight of D6 by 0.8.
\<close>

theorem rule_5_dampens_under_critical_tension:
  "(''D6'', ''D3'') \<in> set TENSION_PAIRS
   \<and> (''D3'', ''D6'') \<in> set SPANNUNGSPAARE
   \<and> tension_intensity score_D6_ahead score_D3_behind = 4
   \<and> tension_intensity score_D6_ahead score_D3_behind > SCHWELLENWERT_SPANNUNG
   \<and> ist_value score_D6_ahead > SCHWELLENWERT_IST
   \<and> ist_value score_D6_ahead \<ge> soll_value score_D6_ahead
   \<and> apply_rule_3_high_tension (load_base_weights False) tension_scores
       = Inr [(''D1'', 125 / 1000), (''D2'', 125 / 1000), (''D3'', 1625 / 10000), (''D4'', 125 / 1000),
              (''D5'', 125 / 1000), (''D6'', 1375 / 10000), (''D7'', 125 / 1000), (''D8'', 125 / 1000)]
   \<and> is_in_critical_tension ''D6'' tension_scores = False
   \<and> apply_rule_5_above_average (load_base_weights False) tension_scores
       = Inr [(''D1'', 125 / 1000), (''D2'', 125 / 1000), (''D3'', 125 / 1000), (''D4'', 125 / 1000),
              (''D5'', 125 / 1000), (''D6'', 100 / 1000), (''D7'', 125 / 1000), (''D8'', 125 / 1000)]"
  by code_simp

section \<open>The shape of the subdimension scores\<close>

lemma validated_ids:
  assumes "validate_all_subdimensions v = Inr v'"
  shows "mset (map subdimension_id v) = mset expected_subdimensions"
proof -
  let ?ids = "map subdimension_id v"
  from assms have len: "length v = 16" and sub: "set expected_subdimensions \<subseteq> set ?ids"
    by (auto simp: validate_all_subdimensions_def Let_def split: if_splits)
  have dexp: "distinct expected_subdimensions" by (simp add: expected_subdimensions_def)
  have lexp: "length expected_subdimensions = 16" by (simp add: expected_subdimensions_def)
  have "card (set expected_subdimensions) = 16" using dexp lexp by (simp add: distinct_card)
  moreover have "card (set ?ids) \<le> 16" using len card_length [of ?ids] by simp
  moreover have "card (set expected_subdimensions) \<le> card (set ?ids)"
    using sub by (intro card_mono) simp_all
  ultimately have c: "card (set ?ids) = 16" by linarith
  then have d: "distinct ?ids" using len by (intro card_distinct) simp
  have "set expected_subdimensions = set ?ids"
    using sub c \<open>card (set expected_subdimensions) = 16\<close> by (intro card_subset_eq) simp_all
  then have "set ?ids = set expected_subdimensions" by (rule sym)
  with set_eq_iff_mset_eq_distinct [OF d dexp] show ?thesis by blast
qed

lemma count_by_ids:
  "subdimension_count v d = size (filter_mset (\<lambda>i. startswith i (d @ ''.'')) (mset (map subdimension_id v)))"
  unfolding subdimension_count_def
  by (induction v) auto

lemma expected_counts:
  "list_all (\<lambda>d. size (filter_mset (\<lambda>i. startswith i (d @ ''.'')) (mset expected_subdimensions)) = 2) dimension_ids"
  by (simp add: dimension_ids_def expected_subdimensions_def startswith_def)

lemma validated_two_per_dimension:
  assumes "validate_all_subdimensions v = Inr v'"
  shows "two_per_dimension v"
proof -
  from assms have "length v = 16"
    by (auto simp: validate_all_subdimensions_def Let_def split: if_splits)
  moreover have "list_all (\<lambda>d. subdimension_count v d = 2) dimension_ids"
    using expected_counts by (simp only: count_by_ids validated_ids [OF assms])
  ultimately show ?thesis by (simp add: two_per_dimension_def)
qed

lemma validate_cases:
  "validate_all_subdimensions v = Inr v
   \<or> validate_all_subdimensions v = Inl (ValueError ''Must provide exactly 16 subdimension scores'')
   \<or> validate_all_subdimensions v = Inl (ValueError ''Missing subdimension scores'')"
  by (simp add: validate_all_subdimensions_def Let_def)

lemma rows_count:
  "length (dim_subdimensions (map subdimension_row v) d) = subdimension_count v d"
  unfolding dim_subdimensions_def subdimension_count_def
  by (induction v) (auto simp: subdimension_row_def Let_def case_prod_unfold)

lemma aggregated_ids:
  "map dimension_id (List.map_filter (aggregate_dimension dw rows) ds)
     = filter (\<lambda>d. length (dim_subdimensions rows d) = 2) ds"
  by (induction ds) (auto simp: List.map_filter_simps aggregate_dimension_def Let_def)


lemma complete_assessment_result:
  assumes "\<forall>f\<in>set (context_factors cd). 0 \<le> factor_value f \<and> factor_value f \<le> 3"
  shows "\<exists>c. complete_assessment (Some a) cd arch = Inr c
      \<and> status (completed_assessment c) = COMPLETED
      \<and> completion_percentage (completed_assessment c) = 100
      \<and> subdimension_rows c = map subdimension_row (subdimension_scores cd)
      \<and> dimension_rows c = List.map_filter
            (aggregate_dimension (base_weights_of arch) (map subdimension_row (subdimension_scores cd)))
            dimension_ids
      \<and> overall_eqi (completed_assessment c) = Some (calculate_eqi_backend (dimension_rows c))
      \<and> overall_rgi (completed_assessment c) = Some (calculate_rgi_backend (dimension_rows c))
      \<and> overall_si (completed_assessment c) = Some (calculate_si_backend (dimension_rows c))"
proof -
  have "0 \<le> calculate_context_score_backend (context_factors cd)"
    using context_score_backend_unit [OF assms] by simp
  then have "calculate_dynamic_weights_backend arch (calculate_context_score_backend (context_factors cd)) None
      = Inr (base_weights_of arch)"
    by (intro backend_weights_are_base_weights context_factor_nonzero)
  then show ?thesis
    by (simp add: complete_assessment_def Let_def calculate_all_metrics_def)
qed

text \<open>
  Claim C2. \<open>complete_assessment\<close> takes the subdimension scores inside an
  \<open>AssessmentCompletion\<close>. For a list that does not hold exactly two scores for each of the
  eight dimensions, sixteen in all, the construction of that object fails with a
  \<open>ValueError\<close>, which reaches the caller as an invalid request, and the completion is not
  run. Every object the constructor does return holds two scores for each dimension, and
  for it (with context factor values in \<open>{0, 1, 2, 3}\<close>, the range of their schema, and a
  stored assessment) the completion builds all eight dimension rows, never fewer.
\<close>

theorem wrong_shape_is_refused:
  "(\<not> two_per_dimension v \<longrightarrow>
      new_AssessmentCompletion v cfs = Inl (ValueError ''Must provide exactly 16 subdimension scores'')
      \<or> new_AssessmentCompletion v cfs = Inl (ValueError ''Missing subdimension scores''))
   \<and> (new_AssessmentCompletion v cfs = Inr cd \<and> list_all factor_in_range cfs \<longrightarrow>
        two_per_dimension (subdimension_scores cd)
        \<and> (\<exists>c. complete_assessment (Some a) cd archetype = Inr c
             \<and> status (completed_assessment c) = COMPLETED
             \<and> map dimension_id (dimension_rows c) = dimension_ids
             \<and> length (dimension_rows c) = 8))"
proof (intro conjI impI)
  assume "\<not> two_per_dimension v"
  then have "validate_all_subdimensions v \<noteq> Inr v" using validated_two_per_dimension by blast
  with validate_cases [of v]
  show "new_AssessmentCompletion v cfs = Inl (ValueError ''Must provide exactly 16 subdimension scores'')
      \<or> new_AssessmentCompletion v cfs = Inl (ValueError ''Missing subdimension scores'')"
    by (auto simp: new_AssessmentCompletion_def)
next
  assume "new_AssessmentCompletion v cfs = Inr cd \<and> list_all factor_in_range cfs"
  then have made: "new_AssessmentCompletion v cfs = Inr cd" and range: "list_all factor_in_range cfs"
    by simp_all
  from made validate_cases [of v] have ok: "validate_all_subdimensions v = Inr v"
    and cd: "cd = \<lparr>subdimension_scores = v, context_factors = cfs\<rparr>"
    by (auto simp: new_AssessmentCompletion_def)
  from validated_two_per_dimension [OF ok] show shape: "two_per_dimension (subdimension_scores cd)"
    by (simp add: cd)
  from range have "\<forall>f\<in>set (context_factors cd). 0 \<le> factor_value f \<and> factor_value f \<le> 3"
    by (simp add: cd list_all_iff factor_in_range_def)
  from complete_assessment_result [OF this, of a archetype] obtain c where
    c: "complete_assessment (Some a) cd archetype = Inr c"
    and st: "status (completed_assessment c) = COMPLETED"
    and rows: "dimension_rows c = List.map_filter
            (aggregate_dimension (base_weights_of archetype) (map subdimension_row (subdimension_scores cd)))
            dimension_ids"
    by auto
  have "map dimension_id (dimension_rows c)
      = filter (\<lambda>d. subdimension_count (subdimension_scores cd) d = 2) dimension_ids"
    unfolding rows aggregated_ids rows_count ..
  moreover from shape have "\<forall>d\<in>set dimension_ids. subdimension_count (subdimension_scores cd) d = 2"
    by (simp add: two_per_dimension_def list_all_iff)
  then have "filter (\<lambda>d. subdimension_count (subdimension_scores cd) d = 2) dimension_ids = dimension_ids"
    by (simp add: filter_id_conv)
  ultimately have ids: "map dimension_id (dimension_rows c) = dimension_ids" by simp
  then have "length (map dimension_id (dimension_rows c)) = length dimension_ids" by (simp only:)
  then have "length (dimension_rows c) = 8" by (simp add: dimension_ids_def)
  with c st ids
  show "\<exists>c. complete_assessment (Some a) cd archetype = Inr c
             \<and> status (completed_assessment c) = COMPLETED
             \<and> map dimension_id (dimension_rows c) = dimension_ids
             \<and> length (dimension_rows c) = 8"
    by blast
qed

lemma full_scores_shape: "two_per_dimension full_scores"
  by code_simp

lemma incomplete_scores_shape: "\<not> two_per_dimension incomplete_scores"
  by code_simp

theorem wrong_shape_is_refused_witness:
  "\<not> two_per_dimension incomplete_scores
   \<and> new_AssessmentCompletion incomplete_scores sample_context_factors
       = Inl (ValueError ''Must provide exactly 16 subdimension scores'')
   \<and> new_AssessmentCompletion full_scores sample_context_factors
       = Inr \<lparr>subdimension_scores = full_scores, context_factors = sample_context_factors\<rparr>
   \<and> list_all factor_in_range sample_context_factors
   \<and> two_per_dimension full_scores
   \<and> (\<exists>c. complete_assessment (Some draft_assessment)
             \<lparr>subdimension_scores = full_scores, context_factors = sample_context_factors\<rparr> ''CHAOTIC_DOER'' = Inr c
          \<and> status (completed_assessment c) = COMPLETED
          \<and> map dimension_id (dimension_rows c) = dimension_ids
          \<and> length (dimension_rows c) = 8)"
proof -
  have f: "list_all factor_in_range sample_context_factors"
    by (simp add: sample_context_factors_def factor_in_range_def)
  have bad: "new_AssessmentCompletion incomplete_scores sample_context_factors
       = Inl (ValueError ''Must provide exactly 16 subdimension scores'')"
    by code_simp
  have good: "new_AssessmentCompletion full_scores sample_context_factors
       = Inr \<lparr>subdimension_scores = full_scores, context_factors = sample_context_factors\<rparr>"
    by code_simp
  from wrong_shape_is_refused [of full_scores sample_context_factors
      "\<lparr>subdimension_scores = full_scores, context_factors = sample_context_factors\<rparr>"
      draft_assessment "''CHAOTIC_DOER''"]
    f bad good full_scores_shape incomplete_scores_shape
  show ?thesis by simp
qed

text \<open>
  \<open>complete_assessment\<close> has no check of its own and relies on the schema. A record that
  no call of the constructor returns, with fifteen scores (the second score of D8 is
  missing), is completed with seven dimension rows and the metrics at their defaults.
\<close>

lemma complete_assessment_relies_on_the_schema:
  "isl (new_AssessmentCompletion incomplete_scores sample_context_factors)
   \<and> incomplete_completion =
     Inr \<lparr>completed_assessment =
            \<lparr>overall_rgi = Some 0, overall_eqi = Some 0, overall_si = Some 0,
             overall_sbs = Some (333 / 1000), assessment_context_score = Some (625 / 1000),
             status = COMPLETED, completion_percentage = 100\<rparr>,
          subdimension_rows =
            map (\<lambda>i. \<lparr>row_subdimension_id = i, row_ist_value = 2, row_soll_value = 3, row_gap = 1,
                       row_gap_percentage = 25, row_priority_level = MEDIUM\<rparr>)
              (take 15 expected_subdimensions),
          dimension_rows =
            map (\<lambda>d. \<lparr>dimension_id = d, ist_value = 2, soll_value = 3, dynamic_weight = 125 / 1000\<rparr>)
              (take 7 dimension_ids)\<rparr>"
  by code_simp
end
